theory Spec2Isabelle
  imports Main "HOL-Library.AList"
begin

section \<open>Data model\<close>

text \<open>
  The registration and inventory engine of the event platform, embedded from
  \<^verbatim>\<open>backend/src/routes/normalRegistration.js\<close>,
  \<^verbatim>\<open>backend/src/routes/merchandiseRegistration.js\<close>,
  \<^verbatim>\<open>backend/src/routes/registrationRoutes.js\<close>,
  \<^verbatim>\<open>backend/src/routes/eventHelpers.js\<close> and the two Mongoose schemas
  (\<^verbatim>\<open>models/Event.js\<close>, the Registration schema).

  Document ids (ObjectIds and their \<^verbatim>\<open>toString()\<close>) are strings. Schema fields of type
  \<^verbatim>\<open>Number\<close> that the routes use as counters or money are integers: the event form of the
  repository only submits whole-number stock and non-negative fees and prices, while the
  routes themselves can drive a counter below zero, so the type is \<open>int\<close>, not \<open>nat\<close>.
  Dates are milliseconds since the epoch. Only the fields that the modelled routes read or
  write are kept.
\<close>

type_synonym oid = string
type_synonym time = int

datatype paymentState = NotRequired | Pending | Approved | Rejected

datatype eventKind = Normal | Merchandise

datatype eligibilityRule = IiitOnly | NonIiitOnly | Everyone

datatype participantKind = Iiit | NonIiit

datatype lifecycle = Draft | Published | Ongoing | Completed

text \<open>\<^verbatim>\<open>merchOptionSchema\<close>, \<^verbatim>\<open>merchandiseItemSchema\<close>, \<^verbatim>\<open>formFieldSchema\<close> and
  \<^verbatim>\<open>eventSchema\<close> of \<^verbatim>\<open>models/Event.js\<close>.\<close>

record merchOption =
  opt_id :: oid
  opt_label :: string
  price :: int
  stock :: int

record merchandiseItem =
  item_id :: oid
  itemName :: string
  item_required :: bool
  options :: "merchOption list"

record formField =
  field_id :: oid
  field_label :: string
  field_required :: bool

record event =
  eventType :: eventKind
  eligibility :: eligibilityRule
  registrationDeadline :: "time option"
  startDate :: time
  endDate :: time
  registrationLimit :: int
  registrationFee :: int
  organizerId :: oid
  status :: lifecycle
  registrationOpen :: bool
  registrationCount :: int
  customForm :: "formField list"
  merchandiseItems :: "merchandiseItem list"

text \<open>A submitted form value: JSON \<^verbatim>\<open>null\<close>, a string or an array; a key that is absent
  from the object reads as \<^verbatim>\<open>undefined\<close>, which is \<open>None\<close> of the lookup.\<close>

datatype formValue = JNull | JString string | JArray "string list"

text \<open>One entry of \<^verbatim>\<open>processedSelections\<close> (merchandiseRegistration.js, lines 163-168).\<close>

record selection =
  sel_itemName :: string
  optionId :: oid
  optionLabel :: string
  sel_price :: int

text \<open>The Registration schema. JavaScript objects used as dictionaries
  (\<^verbatim>\<open>formResponses\<close>, \<^verbatim>\<open>merchandiseSelections\<close>) are association lists in insertion
  order with one entry per key.\<close>

record registration =
  reg_id :: oid
  eventId :: oid
  userId :: oid
  ticketId :: string
  paymentStatus :: paymentState
  paymentProof :: string
  qrCode :: string
  formResponses :: "(string \<times> formValue) list"
  merchandiseSelections :: "(oid \<times> selection) list"
  amountPaid :: int
  attended :: bool
  attendedAt :: "time option"

text \<open>The authenticated participant (\<^verbatim>\<open>User.findById(request.user.userId)\<close>); the
  authentication middleware and the user collection are outside the modelled routes, so the
  profile is an argument of each participant route.\<close>

record user =
  user_id :: oid
  participantType :: participantKind

text \<open>The database: the Event collection by \<^verbatim>\<open>_id\<close> and the Registration collection
  in insertion order.\<close>

record db =
  events :: "oid \<rightharpoonup> event"
  registrations :: "registration list"

text \<open>What a request takes from outside the database: the clock (\<^verbatim>\<open>new Date()\<close>), the
  eight hex digits of \<^verbatim>\<open>crypto.randomBytes(4).toString("hex")\<close>, the \<^verbatim>\<open>_id\<close> that
  \<^verbatim>\<open>Registration.create\<close> assigns, and whether the storage layer rejects the ledger write
  for a reason other than a duplicate key.\<close>

record env =
  now :: time
  randomHex :: string
  newId :: oid
  storageFault :: bool

text \<open>Every early \<^verbatim>\<open>return response.status(...)\<close> of the modelled routes, one constructor
  per message; \<open>ServerError\<close> is the outer \<^verbatim>\<open>catch\<close> (status 500).\<close>

datatype error =
    EventNotFound
  | RegistrationNotOpen
  | NormalEventsOnly
  | MerchandiseEventsOnly
  | NotEligible string
  | DeadlinePassed
  | AlreadyRegistered
  | RequiredItemSoldOut string
  | EventFull
  | RequiredFieldMissing string
  | RequiredItemNotSelected string
  | InvalidOption string
  | OutOfStock string string
  | ServerError
  | PaymentProofRequired
  | NotRegistered
  | ProofNotAccepted
  | NotYourEvent
  | RegistrationNotFound
  | AlreadyApproved
  | AlreadyRejected
  | InvalidAction
  | NotOngoing
  | TicketIdRequired
  | InvalidTicket
  | PaymentNotApproved
  | AlreadyCheckedIn

datatype createError = DuplicateKey | OtherStorageError

section \<open>Helpers and database primitives\<close>

text \<open>JavaScript truthiness of an optional string taken from a request body or an object
  lookup: \<^verbatim>\<open>undefined\<close> and the empty string are falsy.\<close>

definition truthy :: "string option \<Rightarrow> string option" where
  "truthy v = (case v of None \<Rightarrow> None | Some s \<Rightarrow> if s = [] then None else Some s)"

text \<open>\<^verbatim>\<open>QRCode.toDataURL(ticketId)\<close>: the library returns a PNG data URL computed from the
  ticket id. Its bytes are not modelled; what the routes depend on is that the result is a
  non-empty string determined by the ticket id.\<close>

definition toDataURL :: "string \<Rightarrow> string" where
  "toDataURL t = ''data:image/png;base64,'' @ t"

text \<open>eventHelpers.js, \<^verbatim>\<open>computeStatus\<close>, with the clock as an argument.\<close>

definition computeStatus :: "time \<Rightarrow> event \<Rightarrow> lifecycle" where
  "computeStatus t e =
     (if status e = Draft then status e
      else if startDate e \<le> t \<and> t \<le> endDate e then Ongoing
      else if endDate e < t then Completed
      else status e)"

text \<open>eventHelpers.js, \<^verbatim>\<open>checkEligibility\<close>: an error message, or \<open>None\<close> for
  \<^verbatim>\<open>null\<close>.\<close>

definition checkEligibility :: "event \<Rightarrow> user \<Rightarrow> string option" where
  "checkEligibility e u =
     (if eligibility e = IiitOnly \<and> participantType u \<noteq> Iiit
        then Some ''This event is for IIIT participants only''
      else if eligibility e = NonIiitOnly \<and> participantType u \<noteq> NonIiit
        then Some ''This event is for Non-IIIT participants only''
      else None)"

text \<open>eventHelpers.js, \<^verbatim>\<open>findOrganizerAndEvent\<close>. The first argument is the result of
  \<^verbatim>\<open>Organizer.findOne({ userId })\<close>: the organizer profile of the caller, if any.\<close>

definition findOrganizerAndEvent :: "oid option \<Rightarrow> oid \<Rightarrow> db \<Rightarrow> error + event" where
  "findOrganizerAndEvent organizer eid d =
     (case events d eid of
        None \<Rightarrow> Inl EventNotFound
      | Some e \<Rightarrow>
          (case organizer of
             None \<Rightarrow> Inl NotYourEvent
           | Some oid \<Rightarrow> if organizerId e = oid then Inr e else Inl NotYourEvent))"

text \<open>\<^verbatim>\<open>Registration.findById\<close>, \<^verbatim>\<open>Registration.findOne({ eventId, userId })\<close> and
  \<^verbatim>\<open>Registration.findOne({ eventId, ticketId })\<close>: the first matching document.\<close>

definition findById :: "oid \<Rightarrow> db \<Rightarrow> registration option" where
  "findById rid d = find (\<lambda>r. reg_id r = rid) (registrations d)"

definition findByEventUser :: "oid \<Rightarrow> oid \<Rightarrow> db \<Rightarrow> registration option" where
  "findByEventUser eid uid d =
     find (\<lambda>r. eventId r = eid \<and> userId r = uid) (registrations d)"

definition findByEventTicket :: "oid \<Rightarrow> string \<Rightarrow> db \<Rightarrow> registration option" where
  "findByEventTicket eid t d =
     find (\<lambda>r. eventId r = eid \<and> ticketId r = t) (registrations d)"

text \<open>\<^verbatim>\<open>registration.save()\<close> on a loaded document: Mongoose writes the paths that the
  route assigned to the stored document with the same \<^verbatim>\<open>_id\<close>. The assignment is the
  function \<open>f\<close>; the route's in-memory copy, which it returns in the response, is \<open>f\<close> of the
  document it loaded.\<close>

fun updateFirst ::
  "oid \<Rightarrow> (registration \<Rightarrow> registration) \<Rightarrow> registration list \<Rightarrow> registration list" where
  "updateFirst rid f [] = []"
| "updateFirst rid f (r # rs) =
     (if reg_id r = rid then f r # rs else r # updateFirst rid f rs)"

definition saveRegistration :: "oid \<Rightarrow> (registration \<Rightarrow> registration) \<Rightarrow> db \<Rightarrow> db" where
  "saveRegistration rid f d = d\<lparr>registrations := updateFirst rid f (registrations d)\<rparr>"

text \<open>\<^verbatim>\<open>Registration.create\<close>. The collection has two unique indexes: \<^verbatim>\<open>ticketId\<close>
  (\<^verbatim>\<open>unique: true\<close> in the schema) and the compound index on
  \<^verbatim>\<open>(eventId, userId)\<close>. A violation of either is the driver's error code 11000.\<close>

definition Registration_create ::
  "env \<Rightarrow> registration \<Rightarrow> db \<Rightarrow> (createError + registration) \<times> db" where
  "Registration_create en r d =
     (if storageFault en then (Inl OtherStorageError, d)
      else if \<exists>x \<in> set (registrations d). eventId x = eventId r \<and> userId x = userId r
        then (Inl DuplicateKey, d)
      else if \<exists>x \<in> set (registrations d). ticketId x = ticketId r
        then (Inl DuplicateKey, d)
      else (Inr r, d\<lparr>registrations := registrations d @ [r]\<rparr>))"

text \<open>The capacity primitives.
  \<^verbatim>\<open>Event.findOneAndUpdate({ _id, registrationCount: { $lt: limit } },
  { $inc: { registrationCount: 1 } })\<close> returns \<^verbatim>\<open>null\<close> when no document matches; the limit
  is the one of the snapshot read at the start of the request.
  \<^verbatim>\<open>Event.findByIdAndUpdate(_id, { $inc: { registrationCount: -1 } })\<close> has no guard.\<close>

definition reserveSlot :: "oid \<Rightarrow> int \<Rightarrow> db \<Rightarrow> bool \<times> db" where
  "reserveSlot eid limit d =
     (case events d eid of
        None \<Rightarrow> (False, d)
      | Some e \<Rightarrow>
          if registrationCount e < limit
          then (True, d\<lparr>events := (events d)(eid \<mapsto> e\<lparr>registrationCount := registrationCount e + 1\<rparr>)\<rparr>)
          else (False, d))"

definition releaseSlot :: "oid \<Rightarrow> db \<Rightarrow> db" where
  "releaseSlot eid d =
     (case events d eid of
        None \<Rightarrow> d
      | Some e \<Rightarrow> d\<lparr>events := (events d)(eid \<mapsto> e\<lparr>registrationCount := registrationCount e - 1\<rparr>)\<rparr>)"

section \<open>Stock primitives\<close>

text \<open>The \<^verbatim>\<open>$inc\<close> of \<^verbatim>\<open>options.$[opt].stock\<close> with the array filter
  \<^verbatim>\<open>{ "opt._id": optionId }\<close>: every option of the list with that id is changed.\<close>

definition incOptions :: "oid \<Rightarrow> int \<Rightarrow> merchOption list \<Rightarrow> merchOption list" where
  "incOptions oi k ops =
     map (\<lambda>op. if opt_id op = oi then op\<lparr>stock := stock op + k\<rparr> else op) ops"

text \<open>\<^verbatim>\<open>merchandiseItems.$[item].options.$[opt].stock\<close> with the array filters
  \<^verbatim>\<open>{ "item._id": itemId }, { "opt._id": optionId }\<close>: every matching item.\<close>

definition incFiltered ::
  "oid \<Rightarrow> oid \<Rightarrow> int \<Rightarrow> merchandiseItem list \<Rightarrow> merchandiseItem list" where
  "incFiltered ii oi k items =
     map (\<lambda>it. if item_id it = ii then it\<lparr>options := incOptions oi k (options it)\<rparr> else it) items"

text \<open>\<^verbatim>\<open>merchandiseItems.$.options.$[opt].stock\<close>: the positional operator \<^verbatim>\<open>$\<close> stands
  for the first array element that matched the query condition
  \<^verbatim>\<open>"merchandiseItems._id": itemId\<close>.\<close>

fun incPositional ::
  "oid \<Rightarrow> oid \<Rightarrow> int \<Rightarrow> merchandiseItem list \<Rightarrow> merchandiseItem list" where
  "incPositional ii oi k [] = []"
| "incPositional ii oi k (it # its) =
     (if item_id it = ii then it\<lparr>options := incOptions oi k (options it)\<rparr> # its
      else it # incPositional ii oi k its)"

definition setItems :: "oid \<Rightarrow> (merchandiseItem list \<Rightarrow> merchandiseItem list) \<Rightarrow> db \<Rightarrow> db" where
  "setItems eid f d =
     (case events d eid of
        None \<Rightarrow> d
      | Some e \<Rightarrow> d\<lparr>events := (events d)(eid \<mapsto> e\<lparr>merchandiseItems := f (merchandiseItems e)\<rparr>)\<rparr>)"

text \<open>merchandiseRegistration.js, lines 129-144: the guarded decrement. The query has three
  independent dotted-path conditions on the arrays (there is no \<^verbatim>\<open>$elemMatch\<close>), and a
  dotted path through an array matches when any element satisfies it: some item has the item
  id, some option of some item has the option id, and some option of some item has
  \<^verbatim>\<open>stock > 0\<close>. The update then decrements the option selected by the array filters.\<close>

definition decrementStock :: "oid \<Rightarrow> oid \<Rightarrow> oid \<Rightarrow> db \<Rightarrow> bool \<times> db" where
  "decrementStock eid ii oi d =
     (case events d eid of
        None \<Rightarrow> (False, d)
      | Some e \<Rightarrow>
          if (\<exists>it \<in> set (merchandiseItems e). item_id it = ii)
           \<and> (\<exists>it \<in> set (merchandiseItems e). \<exists>op \<in> set (options it). opt_id op = oi)
           \<and> (\<exists>it \<in> set (merchandiseItems e). \<exists>op \<in> set (options it). 0 < stock op)
          then (True, setItems eid (incFiltered ii oi (- 1)) d)
          else (False, d))"

text \<open>The three rollback loops over \<^verbatim>\<open>decrementedOptions\<close>. Lines 98-104 and 117-123 use
  the positional form; lines 148-154 use the filtered form behind the query condition on the
  item id; lines 205-211 use the filtered form with the event id alone.\<close>

definition restorePositional :: "oid \<Rightarrow> (oid \<times> oid) list \<Rightarrow> db \<Rightarrow> db" where
  "restorePositional eid ds d =
     foldl (\<lambda>acc p. setItems eid (incPositional (fst p) (snd p) 1) acc) d ds"

definition restoreMatched :: "oid \<Rightarrow> (oid \<times> oid) list \<Rightarrow> db \<Rightarrow> db" where
  "restoreMatched eid ds d =
     foldl (\<lambda>acc p.
        case events acc eid of
          None \<Rightarrow> acc
        | Some e \<Rightarrow>
            if \<exists>it \<in> set (merchandiseItems e). item_id it = fst p
            then setItems eid (incFiltered (fst p) (snd p) 1) acc else acc) d ds"

definition restoreFiltered :: "oid \<Rightarrow> (oid \<times> oid) list \<Rightarrow> db \<Rightarrow> db" where
  "restoreFiltered eid ds d =
     foldl (\<lambda>acc p. setItems eid (incFiltered (fst p) (snd p) 1) acc) d ds"

section \<open>Registration routes\<close>

text \<open>normalRegistration.js, lines 72-92: the first required field whose submitted value is
  \<^verbatim>\<open>undefined\<close>, \<^verbatim>\<open>null\<close>, the empty string or the empty array.\<close>

definition isMissing :: "formValue option \<Rightarrow> bool" where
  "isMissing v =
     (case v of
        None \<Rightarrow> True
      | Some JNull \<Rightarrow> True
      | Some (JString s) \<Rightarrow> s = []
      | Some (JArray xs) \<Rightarrow> xs = [])"

fun missingRequired :: "formField list \<Rightarrow> (string \<times> formValue) list \<Rightarrow> string option" where
  "missingRequired [] submitted = None"
| "missingRequired (f # fs) submitted =
     (if field_required f \<and> isMissing (map_of submitted (field_id f))
      then Some (field_label f)
      else missingRequired fs submitted)"

definition deadlinePassed :: "time \<Rightarrow> event \<Rightarrow> bool" where
  "deadlinePassed t e =
     (case registrationDeadline e of None \<Rightarrow> False | Some dl \<Rightarrow> dl < t)"

text \<open>normalRegistration.js, \<^verbatim>\<open>POST /normal/:id/register\<close> (lines 17-158). The confirmation
  e-mail is fire-and-forget and changes no state. \<^verbatim>\<open>registrationFee || 0\<close> is the fee itself
  on a number.\<close>

definition registerNormal ::
  "env \<Rightarrow> user \<Rightarrow> oid \<Rightarrow> (string \<times> formValue) list \<Rightarrow> db \<Rightarrow> (error + registration) \<times> db" where
  "registerNormal en u eid submittedResponses d =
     (case events d eid of
        None \<Rightarrow> (Inl EventNotFound, d)
      | Some ev \<Rightarrow>
          if \<not> registrationOpen ev then (Inl RegistrationNotOpen, d)
          else if eventType ev \<noteq> Normal then (Inl NormalEventsOnly, d)
          else
            (case checkEligibility ev u of
               Some msg \<Rightarrow> (Inl (NotEligible msg), d)
             | None \<Rightarrow>
                 if deadlinePassed (now en) ev then (Inl DeadlinePassed, d)
                 else if findByEventUser eid (user_id u) d \<noteq> None then (Inl AlreadyRegistered, d)
                 else
                   (case reserveSlot eid (registrationLimit ev) d of
                      (False, _) \<Rightarrow> (Inl EventFull, d)
                    | (True, d1) \<Rightarrow>
                        (case missingRequired (customForm ev) submittedResponses of
                           Some lbl \<Rightarrow> (Inl (RequiredFieldMissing lbl), d1)
                         | None \<Rightarrow>
                             (let tid = ''FEL-'' @ randomHex en;
                                  qr = (if registrationFee ev = 0 then toDataURL tid else []);
                                  st = (if 0 < registrationFee ev then Pending else NotRequired);
                                  new = \<lparr>reg_id = newId en, eventId = eid, userId = user_id u,
                                         ticketId = tid, paymentStatus = st, paymentProof = [],
                                         qrCode = qr, formResponses = submittedResponses,
                                         merchandiseSelections = [],
                                         amountPaid = registrationFee ev,
                                         attended = False, attendedAt = None\<rparr>
                              in (case Registration_create en new d1 of
                                    (Inl ce, _) \<Rightarrow>
                                      (let d2 = releaseSlot eid d1
                                       in if ce = DuplicateKey then (Inl AlreadyRegistered, d2)
                                          else (Inl ServerError, d2))
                                  | (Inr reg, d2) \<Rightarrow> (Inr reg, d2)))))))"

text \<open>merchandiseRegistration.js, lines 60-69: the advisory pre-check on the freshly read
  event.\<close>

fun soldOutRequired :: "merchandiseItem list \<Rightarrow> string option" where
  "soldOutRequired [] = None"
| "soldOutRequired (it # its) =
     (if item_required it \<and> \<not> (\<exists>op \<in> set (options it). 0 < stock op)
      then Some (itemName it)
      else soldOutRequired its)"

text \<open>merchandiseRegistration.js, lines 92-170: the selection loop. Its accumulators are
  \<^verbatim>\<open>processedSelections\<close>, \<^verbatim>\<open>merchTotal\<close> and \<^verbatim>\<open>decrementedOptions\<close>; the items
  iterated are those of the snapshot read at the start of the request. Every failing branch
  runs its rollback loop and releases the slot before it returns.\<close>

fun selectionLoop ::
  "oid \<Rightarrow> (oid \<times> string) list \<Rightarrow> merchandiseItem list \<Rightarrow>
   (oid \<times> selection) list \<Rightarrow> int \<Rightarrow> (oid \<times> oid) list \<Rightarrow> db \<Rightarrow>
   (error + (oid \<times> selection) list \<times> int \<times> (oid \<times> oid) list) \<times> db" where
  "selectionLoop eid selections [] processed total0 decremented d =
     (Inr (processed, total0, decremented), d)"
| "selectionLoop eid selections (merchItem # rest) processed total0 decremented d =
     (case truthy (map_of selections (item_id merchItem)) of
        None \<Rightarrow>
          if item_required merchItem
          then (Inl (RequiredItemNotSelected (itemName merchItem)),
                releaseSlot eid (restorePositional eid decremented d))
          else selectionLoop eid selections rest processed total0 decremented d
      | Some selectedOptionId \<Rightarrow>
          (case find (\<lambda>op. opt_id op = selectedOptionId) (options merchItem) of
             None \<Rightarrow>
               (Inl (InvalidOption (itemName merchItem)),
                releaseSlot eid (restorePositional eid decremented d))
           | Some opt \<Rightarrow>
               (case decrementStock eid (item_id merchItem) (opt_id opt) d of
                  (False, _) \<Rightarrow>
                    (Inl (OutOfStock (itemName merchItem) (opt_label opt)),
                     releaseSlot eid (restoreMatched eid decremented d))
                | (True, d1) \<Rightarrow>
                    selectionLoop eid selections rest
                      (AList.update (item_id merchItem)
                         \<lparr>sel_itemName = itemName merchItem, optionId = opt_id opt,
                          optionLabel = opt_label opt, sel_price = price opt\<rparr> processed)
                      (total0 + price opt)
                      (decremented @ [(item_id merchItem, opt_id opt)])
                      d1)))"

text \<open>merchandiseRegistration.js, \<^verbatim>\<open>POST /merch/:id/register\<close> (lines 20-237).\<close>

definition registerMerch ::
  "env \<Rightarrow> user \<Rightarrow> oid \<Rightarrow> (oid \<times> string) list \<Rightarrow> db \<Rightarrow> (error + registration) \<times> db" where
  "registerMerch en u eid selections d =
     (case events d eid of
        None \<Rightarrow> (Inl EventNotFound, d)
      | Some ev \<Rightarrow>
          if \<not> registrationOpen ev then (Inl RegistrationNotOpen, d)
          else if eventType ev \<noteq> Merchandise then (Inl MerchandiseEventsOnly, d)
          else
            (case checkEligibility ev u of
               Some msg \<Rightarrow> (Inl (NotEligible msg), d)
             | None \<Rightarrow>
                 if deadlinePassed (now en) ev then (Inl DeadlinePassed, d)
                 else if findByEventUser eid (user_id u) d \<noteq> None then (Inl AlreadyRegistered, d)
                 else
                   (case soldOutRequired (merchandiseItems ev) of
                      Some nm \<Rightarrow> (Inl (RequiredItemSoldOut nm), d)
                    | None \<Rightarrow>
                        (case reserveSlot eid (registrationLimit ev) d of
                           (False, _) \<Rightarrow> (Inl EventFull, d)
                         | (True, d1) \<Rightarrow>
                             (case selectionLoop eid selections (merchandiseItems ev) [] 0 [] d1 of
                                (Inl err, d2) \<Rightarrow> (Inl err, d2)
                              | (Inr (processed, merchTotal, decremented), d2) \<Rightarrow>
                                  (let amount = registrationFee ev + merchTotal;
                                       tid = ''FEL-'' @ randomHex en;
                                       st = (if 0 < amount then Pending else NotRequired);
                                       qr = (if 0 < amount then [] else toDataURL tid);
                                       new = \<lparr>reg_id = newId en, eventId = eid, userId = user_id u,
                                              ticketId = tid, paymentStatus = st, paymentProof = [],
                                              qrCode = qr, formResponses = [],
                                              merchandiseSelections = processed,
                                              amountPaid = amount,
                                              attended = False, attendedAt = None\<rparr>
                                   in (case Registration_create en new d2 of
                                         (Inl ce, _) \<Rightarrow>
                                           (let d3 = restoreFiltered eid decremented (releaseSlot eid d2)
                                            in if ce = DuplicateKey then (Inl AlreadyRegistered, d3)
                                               else (Inl ServerError, d3))
                                       | (Inr reg, d3) \<Rightarrow> (Inr reg, d3))))))))"

text \<open>normalRegistration.js, \<^verbatim>\<open>PATCH /:id/payment-proof\<close> (lines 179-211).\<close>

definition uploadPaymentProof ::
  "user \<Rightarrow> oid \<Rightarrow> string option \<Rightarrow> db \<Rightarrow> (error + registration) \<times> db" where
  "uploadPaymentProof u eid body_paymentProof d =
     (case truthy body_paymentProof of
        None \<Rightarrow> (Inl PaymentProofRequired, d)
      | Some pp \<Rightarrow>
          (case findByEventUser eid (user_id u) d of
             None \<Rightarrow> (Inl NotRegistered, d)
           | Some r \<Rightarrow>
               if paymentStatus r \<noteq> Pending \<and> paymentStatus r \<noteq> Rejected
                 then (Inl ProofNotAccepted, d)
               else
                 (let f = (if paymentStatus r = Rejected
                           then (\<lambda>x. x\<lparr>paymentProof := pp, paymentStatus := Pending\<rparr>)
                           else (\<lambda>x. x\<lparr>paymentProof := pp\<rparr>))
                  in (Inr (f r), saveRegistration (reg_id r) f d))))"

section \<open>Payment disposition\<close>

text \<open>registrationRoutes.js, lines 224-242: the stock restore of the reject branch works on the
  freshly read event document: for each key of \<^verbatim>\<open>merchandiseSelections\<close>, the first item with
  that id and, in it, the first option with the recorded option id get \<^verbatim>\<open>stock + 1\<close>;
  \<^verbatim>\<open>event.save()\<close> then writes the document back.\<close>

fun bumpOption :: "oid \<Rightarrow> merchOption list \<Rightarrow> merchOption list" where
  "bumpOption oi [] = []"
| "bumpOption oi (op # ops) =
     (if opt_id op = oi then op\<lparr>stock := stock op + 1\<rparr> # ops else op # bumpOption oi ops)"

fun bumpItem :: "oid \<Rightarrow> oid \<Rightarrow> merchandiseItem list \<Rightarrow> merchandiseItem list" where
  "bumpItem ii oi [] = []"
| "bumpItem ii oi (it # its) =
     (if item_id it = ii then it\<lparr>options := bumpOption oi (options it)\<rparr> # its
      else it # bumpItem ii oi its)"

definition restoreSelections ::
  "(oid \<times> selection) list \<Rightarrow> merchandiseItem list \<Rightarrow> merchandiseItem list" where
  "restoreSelections sels items =
     foldl (\<lambda>acc p. if optionId (snd p) \<noteq> [] then bumpItem (fst p) (optionId (snd p)) acc else acc)
       items sels"

datatype action = Approve | Reject | OtherAction

text \<open>registrationRoutes.js, \<^verbatim>\<open>PATCH /:eventId/registrations/:regId/payment\<close>
  (lines 167-252). The e-mail sent on approval changes no state.\<close>

definition disposePayment ::
  "oid option \<Rightarrow> oid \<Rightarrow> oid \<Rightarrow> action \<Rightarrow> db \<Rightarrow> (error + registration) \<times> db" where
  "disposePayment organizer eid rid act d =
     (case findOrganizerAndEvent organizer eid d of
        Inl err \<Rightarrow> (Inl err, d)
      | Inr _ \<Rightarrow>
          (case findById rid d of
             None \<Rightarrow> (Inl RegistrationNotFound, d)
           | Some r \<Rightarrow>
               (case act of
                  Approve \<Rightarrow>
                    if paymentStatus r = Approved then (Inl AlreadyApproved, d)
                    else
                      (let f = (if qrCode r = []
                                then (\<lambda>x. x\<lparr>paymentStatus := Approved,
                                             qrCode := toDataURL (ticketId r)\<rparr>)
                                else (\<lambda>x. x\<lparr>paymentStatus := Approved\<rparr>))
                       in (Inr (f r), saveRegistration (reg_id r) f d))
                | Reject \<Rightarrow>
                    if paymentStatus r = Rejected then (Inl AlreadyRejected, d)
                    else
                      (let f = (\<lambda>x. x\<lparr>paymentStatus := Rejected, qrCode := []\<rparr>);
                           d1 = saveRegistration (reg_id r) f d;
                           d2 = releaseSlot eid d1;
                           d3 = (case events d2 eid of
                                   None \<Rightarrow> d2
                                 | Some ev \<Rightarrow>
                                     if eventType ev = Merchandise
                                     then d2\<lparr>events := (events d2)(eid \<mapsto>
                                            ev\<lparr>merchandiseItems :=
                                                 restoreSelections (merchandiseSelections r)
                                                   (merchandiseItems ev)\<rparr>)\<rparr>
                                     else d2)
                       in (Inr (f r), d3))
                | OtherAction \<Rightarrow> (Inl InvalidAction, d))))"

section \<open>Check-in routes\<close>

text \<open>registrationRoutes.js, \<^verbatim>\<open>POST /:id/scan\<close> (lines 255-300). The response of a
  successful scan is rendered here as the saved registration.\<close>

definition scanTicket ::
  "env \<Rightarrow> oid option \<Rightarrow> oid \<Rightarrow> string option \<Rightarrow> db \<Rightarrow> (error + registration) \<times> db" where
  "scanTicket en organizer eid body_ticketId d =
     (case findOrganizerAndEvent organizer eid d of
        Inl err \<Rightarrow> (Inl err, d)
      | Inr ev \<Rightarrow>
          if computeStatus (now en) ev \<noteq> Ongoing then (Inl NotOngoing, d)
          else
            (case truthy body_ticketId of
               None \<Rightarrow> (Inl TicketIdRequired, d)
             | Some t \<Rightarrow>
                 (case findByEventTicket eid t d of
                    None \<Rightarrow> (Inl InvalidTicket, d)
                  | Some r \<Rightarrow>
                      if paymentStatus r = Pending \<or> paymentStatus r = Rejected
                        then (Inl PaymentNotApproved, d)
                      else if attended r then (Inl AlreadyCheckedIn, d)
                      else
                        (let f = (\<lambda>x. x\<lparr>attended := True, attendedAt := Some (now en)\<rparr>)
                         in (Inr (f r), saveRegistration (reg_id r) f d)))))"

text \<open>registrationRoutes.js, \<^verbatim>\<open>POST /:eventId/registrations/:regId/checkin\<close>
  (lines 303-335): the manual override toggles attendance.\<close>

definition manualCheckin ::
  "env \<Rightarrow> oid option \<Rightarrow> oid \<Rightarrow> oid \<Rightarrow> db \<Rightarrow> (error + registration) \<times> db" where
  "manualCheckin en organizer eid rid d =
     (case findOrganizerAndEvent organizer eid d of
        Inl err \<Rightarrow> (Inl err, d)
      | Inr ev \<Rightarrow>
          if computeStatus (now en) ev \<noteq> Ongoing then (Inl NotOngoing, d)
          else
            (case findById rid d of
               None \<Rightarrow> (Inl RegistrationNotFound, d)
             | Some r \<Rightarrow>
                 if paymentStatus r = Pending \<or> paymentStatus r = Rejected
                   then (Inl PaymentNotApproved, d)
                 else
                   (let a = \<not> attended r;
                        f = (\<lambda>x. x\<lparr>attended := a,
                                     attendedAt := (if a then Some (now en) else None)\<rparr>)
                    in (Inr (f r), saveRegistration (reg_id r) f d))))"

section \<open>Requests, observations and ledger invariants\<close>

text \<open>The routes above as one request type, as \<^verbatim>\<open>server.js\<close> mounts them on the router; a
  run handles requests one after the other.\<close>

datatype request =
    RegisterNormal env user oid "(string \<times> formValue) list"
  | RegisterMerch env user oid "(oid \<times> string) list"
  | UploadProof user oid "string option"
  | Dispose "oid option" oid oid action
  | Scan env "oid option" oid "string option"
  | ManualCheckin env "oid option" oid oid

fun handle :: "request \<Rightarrow> db \<Rightarrow> (error + registration) \<times> db" where
  "handle (RegisterNormal en u eid body) d = registerNormal en u eid body d"
| "handle (RegisterMerch en u eid sels) d = registerMerch en u eid sels d"
| "handle (UploadProof u eid pp) d = uploadPaymentProof u eid pp d"
| "handle (Dispose org eid rid act) d = disposePayment org eid rid act d"
| "handle (Scan en org eid t) d = scanTicket en org eid t d"
| "handle (ManualCheckin en org eid rid) d = manualCheckin en org eid rid d"

fun run :: "request list \<Rightarrow> db \<Rightarrow> db" where
  "run [] d = d"
| "run (q # qs) d = run qs (snd (handle q d))"

text \<open>The counters of the inventory: an event's \<^verbatim>\<open>registrationCount\<close> and the stock of the
  variant addressed by item id and option id (the first item with the id and its first option
  with the id, as the routes' own \<^verbatim>\<open>find\<close> calls read it).\<close>

definition countOf :: "db \<Rightarrow> oid \<Rightarrow> int option" where
  "countOf d eid = map_option registrationCount (events d eid)"

definition stockIn :: "merchandiseItem list \<Rightarrow> oid \<Rightarrow> oid \<Rightarrow> int option" where
  "stockIn items ii oi =
     (case find (\<lambda>it. item_id it = ii) items of
        None \<Rightarrow> None
      | Some it \<Rightarrow> map_option stock (find (\<lambda>op. opt_id op = oi) (options it)))"

definition stockOf :: "db \<Rightarrow> oid \<Rightarrow> oid \<Rightarrow> oid \<Rightarrow> int option" where
  "stockOf d eid ii oi =
     (case events d eid of None \<Rightarrow> None | Some e \<Rightarrow> stockIn (merchandiseItems e) ii oi)"

text \<open>Registrations of an event that record a selection of the variant: all of them, and those
  whose payment is not rejected (a rejection returns the unit to stock).\<close>

definition selected :: "registration \<Rightarrow> oid \<Rightarrow> oid \<Rightarrow> bool" where
  "selected r ii oi =
     (case map_of (merchandiseSelections r) ii of None \<Rightarrow> False | Some s \<Rightarrow> optionId s = oi)"

definition selects :: "registration \<Rightarrow> oid \<Rightarrow> oid \<Rightarrow> oid \<Rightarrow> bool" where
  "selects r eid ii oi = (eventId r = eid \<and> selected r ii oi)"

definition recordedClaims :: "db \<Rightarrow> oid \<Rightarrow> oid \<Rightarrow> oid \<Rightarrow> int" where
  "recordedClaims d eid ii oi = int (length (filter (\<lambda>r. selects r eid ii oi) (registrations d)))"

definition heldClaims :: "db \<Rightarrow> oid \<Rightarrow> oid \<Rightarrow> oid \<Rightarrow> int" where
  "heldClaims d eid ii oi =
     int (length (filter (\<lambda>r. selects r eid ii oi \<and> paymentStatus r \<noteq> Rejected) (registrations d)))"

text \<open>The uniqueness that the compound index enforces, the uniqueness of \<^verbatim>\<open>_id\<close>, and the
  shape of an event that the event form produces: distinct item ids, and fee and prices that
  are not negative.\<close>

definition uniquePairs :: "db \<Rightarrow> bool" where
  "uniquePairs d = distinct (map (\<lambda>r. (eventId r, userId r)) (registrations d))"

definition uniqueRegIds :: "db \<Rightarrow> bool" where
  "uniqueRegIds d = distinct (map reg_id (registrations d))"

definition distinctItems :: "merchandiseItem list \<Rightarrow> bool" where
  "distinctItems items = distinct (map item_id items)"

definition itemsOk :: "db \<Rightarrow> oid \<Rightarrow> bool" where
  "itemsOk d eid = (case events d eid of None \<Rightarrow> True | Some e \<Rightarrow> distinctItems (merchandiseItems e))"



definition qrAbsent :: "db \<Rightarrow> oid \<Rightarrow> bool" where
  "qrAbsent d rid = (\<forall>x \<in> set (registrations d). reg_id x = rid \<longrightarrow> qrCode x = [])"


text \<open>The capacity counter of an event with its limit; a state that differs from another by
  one guarded reservation on an event; the two bounds of the capacity invariant; and the
  requests that reject a payment.\<close>

definition capacityOf :: "db \<Rightarrow> oid \<Rightarrow> (int \<times> int) option" where
  "capacityOf d eid = map_option (\<lambda>e. (registrationCount e, registrationLimit e)) (events d eid)"

definition reserved :: "db \<Rightarrow> oid \<Rightarrow> db \<Rightarrow> bool" where
  "reserved d eid d' =
     (\<exists>ev. events d eid = Some ev \<and> registrationCount ev < registrationLimit ev
         \<and> capacityOf d' = (capacityOf d)(eid \<mapsto> (registrationCount ev + 1, registrationLimit ev)))"

definition withinLimit :: "db \<Rightarrow> bool" where
  "withinLimit d = (\<forall>e c l. capacityOf d e = Some (c, l) \<longrightarrow> c \<le> l)"

definition countsNonNegative :: "db \<Rightarrow> bool" where
  "countsNonNegative d = (\<forall>e c l. capacityOf d e = Some (c, l) \<longrightarrow> 0 \<le> c)"

fun isRejection :: "request \<Rightarrow> bool" where
  "isRejection (Dispose org eid rid act) = (act = Reject)"
| "isRejection q = False"

section \<open>Sample data\<close>

text \<open>A paid normal event with one required form field and one place, not yet started at
  time 50; a free merchandise event with one required item and one unit of one variant; one
  organizer, two participants.\<close>

definition talk :: event where
  "talk = \<lparr>eventType = Normal, eligibility = Everyone, registrationDeadline = Some 90,
     startDate = 100, endDate = 200, registrationLimit = 1, registrationFee = 500,
     organizerId = ''org1'', status = Published, registrationOpen = True,
     registrationCount = 0,
     customForm = [\<lparr>field_id = ''f1'', field_label = ''College'', field_required = True\<rparr>],
     merchandiseItems = []\<rparr>"

definition shirt :: merchandiseItem where
  "shirt = \<lparr>item_id = ''i1'', itemName = ''Shirt'', item_required = True,
     options = [\<lparr>opt_id = ''m'', opt_label = ''M'', price = 300, stock = 1\<rparr>]\<rparr>"

definition sale :: event where
  "sale = \<lparr>eventType = Merchandise, eligibility = Everyone, registrationDeadline = Some 90,
     startDate = 100, endDate = 200, registrationLimit = 5, registrationFee = 0,
     organizerId = ''org1'', status = Published, registrationOpen = True,
     registrationCount = 0, customForm = [], merchandiseItems = [shirt]\<rparr>"

definition db0 :: db where
  "db0 = \<lparr>events = [''talk'' \<mapsto> talk, ''sale'' \<mapsto> sale], registrations = []\<rparr>"

definition alice :: user where
  "alice = \<lparr>user_id = ''alice'', participantType = Iiit\<rparr>"

definition bob :: user where
  "bob = \<lparr>user_id = ''bob'', participantType = NonIiit\<rparr>"

definition env1 :: env where
  "env1 = \<lparr>now = 50, randomHex = ''0a1b2c3d'', newId = ''r1'', storageFault = False\<rparr>"

definition env2 :: env where
  "env2 = \<lparr>now = 60, randomHex = ''0a1b2c3d'', newId = ''r2'', storageFault = False\<rparr>"

definition env3 :: env where
  "env3 = \<lparr>now = 150, randomHex = ''99999999'', newId = ''r3'', storageFault = False\<rparr>"

text \<open>The same database after Alice registered for the talk and her payment was approved.\<close>

definition ticketA :: registration where
  "ticketA = \<lparr>reg_id = ''r1'', eventId = ''talk'', userId = ''alice'',
     ticketId = ''FEL-0a1b2c3d'', paymentStatus = Approved, paymentProof = ''proof.png'',
     qrCode = toDataURL ''FEL-0a1b2c3d'', formResponses = [(''f1'', JString ''IIIT'')],
     merchandiseSelections = [], amountPaid = 500, attended = False, attendedAt = None\<rparr>"

definition db1 :: db where
  "db1 = \<lparr>events = [''talk'' \<mapsto> talk\<lparr>registrationCount := 1\<rparr>, ''sale'' \<mapsto> sale],
     registrations = [ticketA]\<rparr>"

text \<open>After Bob ordered the only shirt of the sale (payment pending), and after the organizer
  rejected that payment.\<close>

definition orderB :: registration where
  "orderB = \<lparr>reg_id = ''r2'', eventId = ''sale'', userId = ''bob'',
     ticketId = ''FEL-11112222'', paymentStatus = Pending, paymentProof = [],
     qrCode = [], formResponses = [],
     merchandiseSelections =
       [(''i1'', \<lparr>sel_itemName = ''Shirt'', optionId = ''m'', optionLabel = ''M'', sel_price = 300\<rparr>)],
     amountPaid = 300, attended = False, attendedAt = None\<rparr>"

definition soldOut :: event where
  "soldOut = sale\<lparr>registrationCount := 1,
     merchandiseItems := [shirt\<lparr>options := [\<lparr>opt_id = ''m'', opt_label = ''M'', price = 300, stock = 0\<rparr>]\<rparr>]\<rparr>"

definition db2 :: db where
  "db2 = \<lparr>events = [''talk'' \<mapsto> talk, ''sale'' \<mapsto> soldOut], registrations = [orderB]\<rparr>"

definition db3 :: db where
  "db3 = \<lparr>events = [''talk'' \<mapsto> talk, ''sale'' \<mapsto> sale],
     registrations = [orderB\<lparr>paymentStatus := Rejected\<rparr>]\<rparr>"



text \<open>Alice's registration for the talk as the route creates it, before any payment
  decision.\<close>

definition paidTicket :: registration where
  "paidTicket = ticketA\<lparr>paymentStatus := Pending, paymentProof := [], qrCode := []\<rparr>"

section \<open>Ledger lemmas\<close>

lemma events_saveRegistration: "events (saveRegistration rid f d) = events d"
  by (simp add: saveRegistration_def)

lemma find_updateFirst_byId:
  "find (\<lambda>r. reg_id r = rid) rs = Some r \<Longrightarrow> reg_id (f r) = rid \<Longrightarrow>
   find (\<lambda>r. reg_id r = rid) (updateFirst rid f rs) = Some (f r)"
  by (induction rs) (auto split: if_splits)

lemma find_updateFirst_unique:
  "find P rs = Some r \<Longrightarrow> distinct (map reg_id rs) \<Longrightarrow> P (f r) \<Longrightarrow>
   find P (updateFirst (reg_id r) f rs) = Some (f r)"
proof (induction rs)
  case Nil
  then show ?case by simp
next
  case (Cons x rs)
  show ?case
  proof (cases "P x")
    case True
    with Cons.prems show ?thesis by simp
  next
    case False
    with Cons.prems have fr: "find P rs = Some r" by simp
    then have "r \<in> set rs" by (auto simp: find_Some_iff)
    with Cons.prems(2) have "reg_id x \<noteq> reg_id r" by auto
    with False Cons.IH[OF fr] Cons.prems show ?thesis by simp
  qed
qed

section \<open>Check-in\<close>

text \<open>
  Claim C8, as amended. \<^verbatim>\<open>POST /:id/scan\<close> first checks that the caller's organizer profile
  owns the event, that the event is ongoing at the time of the scan and that a ticket id was
  submitted. When these three checks pass: the scan fails with \<open>InvalidTicket\<close> when no
  registration of the event carries the ticket code, with \<open>PaymentNotApproved\<close> when the
  registration's payment is pending or rejected, with \<open>AlreadyCheckedIn\<close> when it is already
  attended (none of these changes the database); otherwise it returns the registration with
  \<open>attended\<close> set and \<open>attendedAt\<close> the current time, stores exactly that registration under
  the ticket code, and leaves every event unchanged.
\<close>

theorem scanTicket_outcomes:
  assumes own: "findOrganizerAndEvent organizer eid d = Inr ev"
      and ongoing: "computeStatus (now en) ev = Ongoing"
      and code: "t \<noteq> []"
      and ids: "uniqueRegIds d"
  shows "(findByEventTicket eid t d = None \<longrightarrow>
            scanTicket en organizer eid (Some t) d = (Inl InvalidTicket, d))
       \<and> (\<forall>r. findByEventTicket eid t d = Some r \<longrightarrow>
            (paymentStatus r = Pending \<or> paymentStatus r = Rejected \<longrightarrow>
               scanTicket en organizer eid (Some t) d = (Inl PaymentNotApproved, d))
          \<and> (paymentStatus r \<noteq> Pending \<and> paymentStatus r \<noteq> Rejected \<and> attended r \<longrightarrow>
               scanTicket en organizer eid (Some t) d = (Inl AlreadyCheckedIn, d))
          \<and> (paymentStatus r \<noteq> Pending \<and> paymentStatus r \<noteq> Rejected \<and> \<not> attended r \<longrightarrow>
               (\<exists>d'. scanTicket en organizer eid (Some t) d =
                        (Inr (r\<lparr>attended := True, attendedAt := Some (now en)\<rparr>), d')
                    \<and> findByEventTicket eid t d' =
                        Some (r\<lparr>attended := True, attendedAt := Some (now en)\<rparr>)
                    \<and> events d' = events d)))"
proof -
  have tr: "truthy (Some t) = Some t" using code by (simp add: truthy_def)
  have none: "findByEventTicket eid t d = None \<Longrightarrow>
      scanTicket en organizer eid (Some t) d = (Inl InvalidTicket, d)"
    using own ongoing tr by (simp add: scanTicket_def)
  have some: "scanTicket en organizer eid (Some t) d =
      (if paymentStatus r = Pending \<or> paymentStatus r = Rejected then (Inl PaymentNotApproved, d)
       else if attended r then (Inl AlreadyCheckedIn, d)
       else (Inr (r\<lparr>attended := True, attendedAt := Some (now en)\<rparr>),
             saveRegistration (reg_id r) (\<lambda>x. x\<lparr>attended := True, attendedAt := Some (now en)\<rparr>) d))"
    if "findByEventTicket eid t d = Some r" for r
    using own ongoing tr that by (simp add: scanTicket_def Let_def)
  have stored: "findByEventTicket eid t
        (saveRegistration (reg_id r) (\<lambda>x. x\<lparr>attended := True, attendedAt := Some (now en)\<rparr>) d)
      = Some (r\<lparr>attended := True, attendedAt := Some (now en)\<rparr>)"
    if f: "findByEventTicket eid t d = Some r" for r
  proof -
    from f have P: "eventId r = eid \<and> ticketId r = t"
      by (auto simp: findByEventTicket_def find_Some_iff)
    show ?thesis
      using f ids P
        find_updateFirst_unique[of "\<lambda>r. eventId r = eid \<and> ticketId r = t" "registrations d" r
          "\<lambda>x. x\<lparr>attended := True, attendedAt := Some (now en)\<rparr>"]
      by (simp add: findByEventTicket_def saveRegistration_def uniqueRegIds_def)
  qed
  show ?thesis
    using none some stored by (auto simp: events_saveRegistration)
qed

text \<open>The amended statement at work: Alice's approved ticket is scanned at time 150, while the
  talk is ongoing.\<close>

theorem scanTicket_outcomes_witness:
  "findOrganizerAndEvent (Some ''org1'') ''talk'' db1 = Inr (talk\<lparr>registrationCount := 1\<rparr>)
   \<and> computeStatus (now env3) (talk\<lparr>registrationCount := 1\<rparr>) = Ongoing
   \<and> uniqueRegIds db1
   \<and> findByEventTicket ''talk'' ''FEL-0a1b2c3d'' db1 = Some ticketA
   \<and> paymentStatus ticketA = Approved
   \<and> (\<exists>d'. scanTicket env3 (Some ''org1'') ''talk'' (Some ''FEL-0a1b2c3d'') db1 =
              (Inr (ticketA\<lparr>attended := True, attendedAt := Some 150\<rparr>), d')
          \<and> findByEventTicket ''talk'' ''FEL-0a1b2c3d'' d' =
              Some (ticketA\<lparr>attended := True, attendedAt := Some 150\<rparr>)
          \<and> events d' = events db1)"
proof -
  have own: "findOrganizerAndEvent (Some ''org1'') ''talk'' db1 = Inr (talk\<lparr>registrationCount := 1\<rparr>)"
    by (simp add: findOrganizerAndEvent_def db1_def talk_def)
  have ongoing: "computeStatus (now env3) (talk\<lparr>registrationCount := 1\<rparr>) = Ongoing"
    by (simp add: computeStatus_def env3_def talk_def)
  have code: "''FEL-0a1b2c3d'' \<noteq> []" by simp
  have ids: "uniqueRegIds db1" by (simp add: uniqueRegIds_def db1_def)
  have found: "findByEventTicket ''talk'' ''FEL-0a1b2c3d'' db1 = Some ticketA"
    by (simp add: findByEventTicket_def db1_def ticketA_def)
  have st: "paymentStatus ticketA = Approved" "\<not> attended ticketA"
    by (simp_all add: ticketA_def)
  have n: "now env3 = 150" by (simp add: env3_def)
  from scanTicket_outcomes[OF own ongoing code ids] found st n
  show ?thesis using own ongoing ids by auto
qed

text \<open>Claim C8 as stated does not hold: the same ticket, approved and not yet attended,
  scanned at time 50, before the talk starts, is refused and nothing is recorded.\<close>

theorem scanTicket_before_start_counterexample:
  "findByEventTicket ''talk'' ''FEL-0a1b2c3d'' db1 = Some ticketA
   \<and> paymentStatus ticketA = Approved
   \<and> attended ticketA = False
   \<and> scanTicket env1 (Some ''org1'') ''talk'' (Some ''FEL-0a1b2c3d'') db1 = (Inl NotOngoing, db1)"
  by (simp add: scanTicket_def findOrganizerAndEvent_def computeStatus_def findByEventTicket_def
      db1_def ticketA_def talk_def env1_def)

section \<open>Payment proof and payment disposition\<close>

text \<open>
  Claim C7. For a registration whose payment is rejected, uploading a (non-empty) payment proof
  returns that same registration with \<open>paymentStatus\<close> back to \<open>Pending\<close> and the new proof:
  same \<^verbatim>\<open>_id\<close>, same ticket code. The stored registration of the participant for the event is
  that document, the ledger holds the same documents as before, and the Event collection is
  unchanged: no \<^verbatim>\<open>registrationCount\<close> and no stock is touched.
\<close>

theorem uploadPaymentProof_after_rejection:
  assumes found: "findByEventUser eid (user_id u) d = Some r"
      and rej: "paymentStatus r = Rejected"
      and pp: "pp \<noteq> []"
      and ids: "uniqueRegIds d"
  shows "\<exists>r' d'. uploadPaymentProof u eid (Some pp) d = (Inr r', d')
           \<and> r' = r\<lparr>paymentProof := pp, paymentStatus := Pending\<rparr>
           \<and> paymentStatus r' = Pending \<and> reg_id r' = reg_id r \<and> ticketId r' = ticketId r
           \<and> findByEventUser eid (user_id u) d' = Some r'
           \<and> map reg_id (registrations d') = map reg_id (registrations d)
           \<and> events d' = events d"
proof -
  let ?f = "\<lambda>x. x\<lparr>paymentProof := pp, paymentStatus := Pending\<rparr>"
  have tr: "truthy (Some pp) = Some pp" using pp by (simp add: truthy_def)
  have res: "uploadPaymentProof u eid (Some pp) d = (Inr (?f r), saveRegistration (reg_id r) ?f d)"
    using found rej tr by (simp add: uploadPaymentProof_def Let_def)
  from found have P: "eventId r = eid \<and> userId r = user_id u"
    by (auto simp: findByEventUser_def find_Some_iff)
  have stored: "findByEventUser eid (user_id u) (saveRegistration (reg_id r) ?f d) = Some (?f r)"
    using found ids P
      find_updateFirst_unique[of "\<lambda>r. eventId r = eid \<and> userId r = user_id u" "registrations d" r ?f]
    by (simp add: findByEventUser_def saveRegistration_def uniqueRegIds_def)
  have same: "map reg_id (updateFirst rid ?f rs) = map reg_id rs" for rid rs
    by (induction rs) auto
  show ?thesis
    using res stored same by (simp add: events_saveRegistration saveRegistration_def)
qed

text \<open>Bob re-uploads a proof after the rejection of his order.\<close>

theorem uploadPaymentProof_after_rejection_witness:
  "findByEventUser ''sale'' (user_id bob) db3 = Some (orderB\<lparr>paymentStatus := Rejected\<rparr>)
   \<and> uniqueRegIds db3
   \<and> (\<exists>d'. uploadPaymentProof bob ''sale'' (Some ''proof2.png'') db3 =
             (Inr (orderB\<lparr>paymentProof := ''proof2.png'', paymentStatus := Pending\<rparr>), d')
          \<and> findByEventUser ''sale'' (user_id bob) d' =
               Some (orderB\<lparr>paymentProof := ''proof2.png'', paymentStatus := Pending\<rparr>)
          \<and> events d' = events db3)"
proof -
  have found: "findByEventUser ''sale'' (user_id bob) db3 = Some (orderB\<lparr>paymentStatus := Rejected\<rparr>)"
    by (simp add: findByEventUser_def db3_def orderB_def bob_def)
  have rej: "paymentStatus (orderB\<lparr>paymentStatus := Rejected\<rparr>) = Rejected" by simp
  have pp: "''proof2.png'' \<noteq> []" by simp
  have ids: "uniqueRegIds db3" by (simp add: uniqueRegIds_def db3_def)
  from uploadPaymentProof_after_rejection[OF found rej pp ids]
  show ?thesis using found ids by auto
qed

text \<open>
  Claim C10. For a registration whose payment is rejected, \<open>Approve\<close> by the organizer who owns
  the event of the request succeeds: the registration becomes \<open>Approved\<close>, it has a ticket
  artifact (generated from its ticket code when it had none, as after a rejection), and the
  Event collection is unchanged: the slot and the stock that the rejection released are not
  reserved again.
\<close>

theorem approve_after_rejection:
  assumes own: "findOrganizerAndEvent organizer eid d = Inr ev"
      and found: "findById rid d = Some r"
      and rej: "paymentStatus r = Rejected"
  shows "\<exists>r' d'. disposePayment organizer eid rid Approve d = (Inr r', d')
           \<and> paymentStatus r' = Approved
           \<and> qrCode r' \<noteq> []
           \<and> (qrCode r = [] \<longrightarrow> qrCode r' = toDataURL (ticketId r))
           \<and> reg_id r' = reg_id r \<and> ticketId r' = ticketId r
           \<and> findById rid d' = Some r'
           \<and> events d' = events d"
proof -
  from found have rid: "reg_id r = rid" by (auto simp: findById_def find_Some_iff)
  show ?thesis
  proof (cases "qrCode r = []")
    case True
    let ?f = "\<lambda>x. x\<lparr>paymentStatus := Approved, qrCode := toDataURL (ticketId r)\<rparr>"
    have res: "disposePayment organizer eid rid Approve d = (Inr (?f r), saveRegistration rid ?f d)"
      using own found rej True rid by (simp add: disposePayment_def Let_def)
    have stored: "findById rid (saveRegistration rid ?f d) = Some (?f r)"
      using found rid find_updateFirst_byId[of rid "registrations d" r ?f]
      by (simp add: findById_def saveRegistration_def)
    show ?thesis using res stored True
      by (simp add: events_saveRegistration toDataURL_def)
  next
    case False
    let ?f = "\<lambda>x. x\<lparr>paymentStatus := Approved\<rparr>"
    have res: "disposePayment organizer eid rid Approve d = (Inr (?f r), saveRegistration rid ?f d)"
      using own found rej False rid by (simp add: disposePayment_def Let_def)
    have stored: "findById rid (saveRegistration rid ?f d) = Some (?f r)"
      using found rid find_updateFirst_byId[of rid "registrations d" r ?f]
      by (simp add: findById_def saveRegistration_def)
    show ?thesis using res stored False
      by (simp add: events_saveRegistration)
  qed
qed

text \<open>The organizer approves Bob's rejected order.\<close>

theorem approve_after_rejection_witness:
  "findOrganizerAndEvent (Some ''org1'') ''sale'' db3 = Inr sale
   \<and> findById ''r2'' db3 = Some (orderB\<lparr>paymentStatus := Rejected\<rparr>)
   \<and> (\<exists>r' d'. disposePayment (Some ''org1'') ''sale'' ''r2'' Approve db3 = (Inr r', d')
          \<and> paymentStatus r' = Approved
          \<and> qrCode r' = toDataURL ''FEL-11112222''
          \<and> findById ''r2'' d' = Some r'
          \<and> events d' = events db3)"
proof -
  have own: "findOrganizerAndEvent (Some ''org1'') ''sale'' db3 = Inr sale"
    by (simp add: findOrganizerAndEvent_def db3_def sale_def)
  have found: "findById ''r2'' db3 = Some (orderB\<lparr>paymentStatus := Rejected\<rparr>)"
    by (simp add: findById_def db3_def orderB_def)
  have rej: "paymentStatus (orderB\<lparr>paymentStatus := Rejected\<rparr>) = Rejected" by simp
  have q: "qrCode (orderB\<lparr>paymentStatus := Rejected\<rparr>) = []"
          "ticketId (orderB\<lparr>paymentStatus := Rejected\<rparr>) = ''FEL-11112222''"
    by (simp_all add: orderB_def)
  from approve_after_rejection[OF own found rej] q
  show ?thesis using own found by auto
qed

lemma find_bumpOption:
  "map_option stock (find (\<lambda>op. opt_id op = oi') (bumpOption oi ops)) =
   map_option (\<lambda>s. if oi' = oi then s + 1 else s)
     (map_option stock (find (\<lambda>op. opt_id op = oi') ops))"
  by (induction ops) (auto simp: option.map_ident)

lemma stockIn_bumpItem:
  "stockIn (bumpItem ii oi items) ii' oi' =
   map_option (\<lambda>s. if ii' = ii \<and> oi' = oi then s + 1 else s) (stockIn items ii' oi')"
proof (induction items)
  case Nil
  then show ?case by (simp add: stockIn_def)
next
  case (Cons it items)
  show ?case
  proof (cases "item_id it = ii")
    case True
    then show ?thesis
      by (cases "ii' = ii") (simp_all add: stockIn_def find_bumpOption option.map_ident)
  next
    case False
    with Cons show ?thesis by (auto simp: stockIn_def option.map_ident)
  qed
qed

lemma stockIn_restoreSelections:
  "distinct (map fst sels) \<Longrightarrow>
   stockIn (restoreSelections sels items) ii oi =
   map_option
     (\<lambda>s. if (case map_of sels ii of None \<Rightarrow> False | Some v \<Rightarrow> optionId v = oi) \<and> oi \<noteq> []
          then s + 1 else s)
     (stockIn items ii oi)"
proof (induction sels arbitrary: items)
  case Nil
  then show ?case by (simp add: restoreSelections_def option.map_ident)
next
  case (Cons p sels)
  obtain k v where p: "p = (k, v)" by (cases p)
  from Cons.prems p have d: "distinct (map fst sels)" and nk: "map_of sels k = None"
    by (auto simp: map_of_eq_None_iff)
  have unfold: "restoreSelections (p # sels) items =
      restoreSelections sels (if optionId v \<noteq> [] then bumpItem k (optionId v) items else items)"
    by (simp add: restoreSelections_def p)
  show ?case
    unfolding unfold Cons.IH[OF d]
    using nk by (cases "stockIn items ii oi") (auto simp: p stockIn_bumpItem)
qed

lemma events_releaseSlot:
  "events d eid = Some ev \<Longrightarrow>
   events (releaseSlot eid d) = (events d)(eid \<mapsto> ev\<lparr>registrationCount := registrationCount ev - 1\<rparr>)"
  by (simp add: releaseSlot_def)

text \<open>The state that a rejection leaves behind.\<close>

lemma reject_state:
  assumes own: "findOrganizerAndEvent organizer eid d = Inr ev"
      and found: "findById rid d = Some r"
      and st: "paymentStatus r \<noteq> Rejected"
  shows "disposePayment organizer eid rid Reject d =
     (Inr (r\<lparr>paymentStatus := Rejected, qrCode := []\<rparr>),
      \<lparr>events = (events d)(eid \<mapsto>
          ev\<lparr>registrationCount := registrationCount ev - 1,
             merchandiseItems :=
               (if eventType ev = Merchandise
                then restoreSelections (merchandiseSelections r) (merchandiseItems ev)
                else merchandiseItems ev)\<rparr>),
       registrations =
         updateFirst rid (\<lambda>x. x\<lparr>paymentStatus := Rejected, qrCode := []\<rparr>) (registrations d)\<rparr>)"
proof -
  from own have ev: "events d eid = Some ev"
    by (auto simp: findOrganizerAndEvent_def split: option.splits if_splits)
  from found have rid: "reg_id r = rid" by (auto simp: findById_def find_Some_iff)
  let ?f = "\<lambda>x. x\<lparr>paymentStatus := Rejected, qrCode := []\<rparr>"
  let ?d1 = "saveRegistration rid ?f d"
  have d2: "releaseSlot eid ?d1 =
      \<lparr>events = (events d)(eid \<mapsto> ev\<lparr>registrationCount := registrationCount ev - 1\<rparr>),
       registrations = updateFirst rid ?f (registrations d)\<rparr>"
    using ev by (simp add: releaseSlot_def saveRegistration_def)
  show ?thesis
    using own found st rid
    by (simp add: disposePayment_def Let_def d2)
qed

text \<open>
  What \<open>Reject\<close> does to the event named in the request, for the organizer who owns that
  event. It fails with \<open>AlreadyRejected\<close> and changes nothing when the registration is already
  rejected. Otherwise the registration becomes \<open>Rejected\<close> with an empty ticket artifact, the
  \<^verbatim>\<open>registrationCount\<close> of the event of the request goes down by exactly one, the stock of
  one of its variants goes up by one exactly when the registration's selections record that
  variant (the route restores stock for merchandise events only and skips an empty option
  id), and every other event is unchanged. Nothing here ties the event of the request to the
  event of the registration: the route looks the registration up by its id alone.
\<close>

lemma reject_effect:
  assumes own: "findOrganizerAndEvent organizer eid d = Inr ev"
      and found: "findById rid d = Some r"
      and keys: "distinct (map fst (merchandiseSelections r))"
  shows "(paymentStatus r = Rejected \<longrightarrow>
            disposePayment organizer eid rid Reject d = (Inl AlreadyRejected, d))
       \<and> (paymentStatus r \<noteq> Rejected \<longrightarrow>
            (\<exists>r' d' items'.
                disposePayment organizer eid rid Reject d = (Inr r', d')
              \<and> r' = r\<lparr>paymentStatus := Rejected, qrCode := []\<rparr>
              \<and> findById rid d' = Some r'
              \<and> events d' eid =
                  Some (ev\<lparr>registrationCount := registrationCount ev - 1, merchandiseItems := items'\<rparr>)
              \<and> (\<forall>ii oi. stockIn items' ii oi =
                    map_option
                      (\<lambda>s. if eventType ev = Merchandise \<and> selected r ii oi \<and> oi \<noteq> []
                           then s + 1 else s)
                      (stockIn (merchandiseItems ev) ii oi))
              \<and> (\<forall>e. e \<noteq> eid \<longrightarrow> events d' e = events d e)))"
proof -
  let ?f = "\<lambda>x. x\<lparr>paymentStatus := Rejected, qrCode := []\<rparr>"
  let ?items = "if eventType ev = Merchandise
                then restoreSelections (merchandiseSelections r) (merchandiseItems ev)
                else merchandiseItems ev"
  from found have rid: "reg_id r = rid" by (auto simp: findById_def find_Some_iff)
  have already: "paymentStatus r = Rejected \<Longrightarrow>
      disposePayment organizer eid rid Reject d = (Inl AlreadyRejected, d)"
    using own found by (simp add: disposePayment_def)
  have stored: "find (\<lambda>x. reg_id x = rid) (updateFirst rid ?f (registrations d)) = Some (?f r)"
    using found rid find_updateFirst_byId[of rid "registrations d" r ?f]
    by (simp add: findById_def)
  have stock: "stockIn ?items ii oi =
      map_option (\<lambda>s. if eventType ev = Merchandise \<and> selected r ii oi \<and> oi \<noteq> [] then s + 1 else s)
        (stockIn (merchandiseItems ev) ii oi)" for ii oi
    using stockIn_restoreSelections[OF keys, of "merchandiseItems ev" ii oi]
    by (simp add: selected_def option.map_ident)
  show ?thesis
  proof (intro conjI impI)
    assume "paymentStatus r = Rejected"
    then show "disposePayment organizer eid rid Reject d = (Inl AlreadyRejected, d)"
      by (rule already)
  next
    assume st: "paymentStatus r \<noteq> Rejected"
    show "\<exists>r' d' items'.
                disposePayment organizer eid rid Reject d = (Inr r', d')
              \<and> r' = r\<lparr>paymentStatus := Rejected, qrCode := []\<rparr>
              \<and> findById rid d' = Some r'
              \<and> events d' eid =
                  Some (ev\<lparr>registrationCount := registrationCount ev - 1, merchandiseItems := items'\<rparr>)
              \<and> (\<forall>ii oi. stockIn items' ii oi =
                    map_option
                      (\<lambda>s. if eventType ev = Merchandise \<and> selected r ii oi \<and> oi \<noteq> []
                           then s + 1 else s)
                      (stockIn (merchandiseItems ev) ii oi))
              \<and> (\<forall>e. e \<noteq> eid \<longrightarrow> events d' e = events d e)"
      apply (rule exI[of _ "?f r"])
      apply (rule exI[of _ "\<lparr>events = (events d)(eid \<mapsto>
          ev\<lparr>registrationCount := registrationCount ev - 1, merchandiseItems := ?items\<rparr>),
          registrations = updateFirst rid ?f (registrations d)\<rparr>"])
      apply (rule exI[of _ ?items])
      using reject_state[OF own found st] stored stock
      by (simp add: findById_def)
  qed
qed

text \<open>The organizer rejects Bob's pending order: the slot and the shirt return.\<close>

lemma reject_effect_example:
  "findOrganizerAndEvent (Some ''org1'') ''sale'' db2 = Inr soldOut
   \<and> findById ''r2'' db2 = Some orderB
   \<and> paymentStatus orderB = Pending
   \<and> stockOf db2 ''sale'' ''i1'' ''m'' = Some 0
   \<and> (\<exists>d'. disposePayment (Some ''org1'') ''sale'' ''r2'' Reject db2 =
              (Inr (orderB\<lparr>paymentStatus := Rejected, qrCode := []\<rparr>), d')
          \<and> countOf d' ''sale'' = Some 0
          \<and> stockOf d' ''sale'' ''i1'' ''m'' = Some 1
          \<and> events d' ''talk'' = events db2 ''talk'')"
proof -
  have own: "findOrganizerAndEvent (Some ''org1'') ''sale'' db2 = Inr soldOut"
    by (simp add: findOrganizerAndEvent_def db2_def soldOut_def sale_def)
  have found: "findById ''r2'' db2 = Some orderB"
    by (simp add: findById_def db2_def orderB_def)
  have keys: "distinct (map fst (merchandiseSelections orderB))" by (simp add: orderB_def)
  have st: "paymentStatus orderB = Pending" by (simp add: orderB_def)
  have s0: "stockOf db2 ''sale'' ''i1'' ''m'' = Some 0"
    by (simp add: stockOf_def stockIn_def db2_def soldOut_def sale_def shirt_def)
  have sel: "selected orderB ''i1'' ''m''" by (simp add: selected_def orderB_def)
  have mer: "eventType soldOut = Merchandise" "registrationCount soldOut = 1"
     "stockIn (merchandiseItems soldOut) ''i1'' ''m'' = Some 0"
    by (simp_all add: soldOut_def sale_def stockIn_def shirt_def)
  from reject_effect[OF own found keys] st obtain d' items' where
    r: "disposePayment (Some ''org1'') ''sale'' ''r2'' Reject db2 =
          (Inr (orderB\<lparr>paymentStatus := Rejected, qrCode := []\<rparr>), d')"
    and e: "events d' ''sale'' =
          Some (soldOut\<lparr>registrationCount := registrationCount soldOut - 1, merchandiseItems := items'\<rparr>)"
    and s: "\<forall>ii oi. stockIn items' ii oi =
                    map_option
                      (\<lambda>s. if eventType soldOut = Merchandise \<and> selected orderB ii oi \<and> oi \<noteq> []
                           then s + 1 else s)
                      (stockIn (merchandiseItems soldOut) ii oi)"
    and o: "\<forall>e. e \<noteq> ''sale'' \<longrightarrow> events d' e = events db2 e"
    by auto
  from s sel mer have "stockIn items' ''i1'' ''m'' = Some 1" by simp
  with e mer have "stockOf d' ''sale'' ''i1'' ''m'' = Some 1" "countOf d' ''sale'' = Some 0"
    by (simp_all add: stockOf_def countOf_def)
  moreover from o have "events d' ''talk'' = events db2 ''talk''" by simp
  ultimately show ?thesis using own found st s0 r by blast
qed

text \<open>
  Claim C5, evaluated on the code. Bob's pending order \<open>r2\<close> belongs to the sale and records
  the shirt of size M; the sale has \<^verbatim>\<open>registrationCount\<close> 1 and no shirt left, the talk has
  \<^verbatim>\<open>registrationCount\<close> 0. The organizer, who owns both events, rejects \<open>r2\<close> through the
  talk: \<^verbatim>\<open>PATCH /talk/registrations/r2/payment\<close>. The route finds the registration by
  \<^verbatim>\<open>regId\<close> alone and never compares its \<^verbatim>\<open>eventId\<close> with the event of the request, as the
  scan route does. The order becomes \<open>Rejected\<close>, the talk's counter goes to \<open>-1\<close>, and the
  sale keeps its counter of 1 and its stock of 0: the registration's own slot and shirt are
  not released, and a counter of another event is changed.
\<close>

theorem reject_through_another_event:
  "findOrganizerAndEvent (Some ''org1'') ''talk'' db2 = Inr talk
   \<and> findById ''r2'' db2 = Some orderB
   \<and> eventId orderB = ''sale''
   \<and> paymentStatus orderB = Pending
   \<and> selected orderB ''i1'' ''m''
   \<and> countOf db2 ''talk'' = Some 0
   \<and> countOf db2 ''sale'' = Some 1
   \<and> stockOf db2 ''sale'' ''i1'' ''m'' = Some 0
   \<and> disposePayment (Some ''org1'') ''talk'' ''r2'' Reject db2 =
        (Inr (orderB\<lparr>paymentStatus := Rejected, qrCode := []\<rparr>),
         \<lparr>events = [''talk'' \<mapsto> talk\<lparr>registrationCount := - 1\<rparr>, ''sale'' \<mapsto> soldOut],
          registrations = [orderB\<lparr>paymentStatus := Rejected, qrCode := []\<rparr>]\<rparr>)
   \<and> countOf (snd (disposePayment (Some ''org1'') ''talk'' ''r2'' Reject db2)) ''talk'' = Some (- 1)
   \<and> countOf (snd (disposePayment (Some ''org1'') ''talk'' ''r2'' Reject db2)) ''sale'' = Some 1
   \<and> stockOf (snd (disposePayment (Some ''org1'') ''talk'' ''r2'' Reject db2)) ''sale'' ''i1'' ''m''
        = Some 0"
proof -
  have own: "findOrganizerAndEvent (Some ''org1'') ''talk'' db2 = Inr talk"
    by (simp add: findOrganizerAndEvent_def db2_def talk_def)
  have found: "findById ''r2'' db2 = Some orderB"
    by (simp add: findById_def db2_def orderB_def)
  have r: "eventId orderB = ''sale''" "paymentStatus orderB = Pending" "selected orderB ''i1'' ''m''"
    by (simp_all add: orderB_def selected_def)
  have before: "countOf db2 ''talk'' = Some 0" "countOf db2 ''sale'' = Some 1"
      "stockOf db2 ''sale'' ''i1'' ''m'' = Some 0"
    by (simp_all add: countOf_def stockOf_def stockIn_def db2_def talk_def soldOut_def sale_def shirt_def)
  have res: "disposePayment (Some ''org1'') ''talk'' ''r2'' Reject db2 =
        (Inr (orderB\<lparr>paymentStatus := Rejected, qrCode := []\<rparr>),
         \<lparr>events = [''talk'' \<mapsto> talk\<lparr>registrationCount := - 1\<rparr>, ''sale'' \<mapsto> soldOut],
          registrations = [orderB\<lparr>paymentStatus := Rejected, qrCode := []\<rparr>]\<rparr>)"
    by (simp add: disposePayment_def findOrganizerAndEvent_def findById_def db2_def talk_def
        orderB_def saveRegistration_def releaseSlot_def Let_def fun_upd_twist)
  have after: "countOf \<lparr>events = [''talk'' \<mapsto> talk\<lparr>registrationCount := - 1\<rparr>, ''sale'' \<mapsto> soldOut],
          registrations = [orderB\<lparr>paymentStatus := Rejected, qrCode := []\<rparr>]\<rparr> ''talk'' = Some (- 1)"
      "countOf \<lparr>events = [''talk'' \<mapsto> talk\<lparr>registrationCount := - 1\<rparr>, ''sale'' \<mapsto> soldOut],
          registrations = [orderB\<lparr>paymentStatus := Rejected, qrCode := []\<rparr>]\<rparr> ''sale'' = Some 1"
      "stockOf \<lparr>events = [''talk'' \<mapsto> talk\<lparr>registrationCount := - 1\<rparr>, ''sale'' \<mapsto> soldOut],
          registrations = [orderB\<lparr>paymentStatus := Rejected, qrCode := []\<rparr>]\<rparr> ''sale'' ''i1'' ''m'' = Some 0"
    by (simp_all add: countOf_def stockOf_def stockIn_def soldOut_def sale_def shirt_def)
  show ?thesis
    using own found r before after by (simp add: res)
qed

section \<open>Inventory lemmas\<close>

text \<open>The stock updates commute, an increment undoes a decrement, and the three rollback
  loops agree on an event with distinct item ids.\<close>

lemma incOptions_commute:
  "incOptions a k (incOptions b j ops) = incOptions b j (incOptions a k ops)"
  by (simp add: incOptions_def)

lemma incOptions_inverse: "incOptions a 1 (incOptions a (- 1) ops) = ops"
  by (simp add: incOptions_def map_idI)

lemma incFiltered_commute:
  "incFiltered a b k (incFiltered c e j items) = incFiltered c e j (incFiltered a b k items)"
  by (simp add: incFiltered_def incOptions_commute)

lemma incFiltered_inverse: "incFiltered a b 1 (incFiltered a b (- 1) items) = items"
  by (simp add: incFiltered_def incOptions_inverse map_idI)

lemma item_ids_incFiltered: "map item_id (incFiltered a b k items) = map item_id items"
  by (simp add: incFiltered_def)

lemma incFiltered_absent:
  "\<not> (\<exists>it \<in> set items. item_id it = a) \<Longrightarrow> incFiltered a b k items = items"
  by (simp add: incFiltered_def map_idI)

lemma incPositional_distinct:
  "distinct (map item_id items) \<Longrightarrow> incPositional a b k items = incFiltered a b k items"
proof (induction items)
  case Nil
  then show ?case by (simp add: incFiltered_def)
next
  case (Cons it items)
  show ?case
  proof (cases "item_id it = a")
    case True
    from Cons.prems have "item_id it \<notin> item_id ` set items" by simp
    with True have "\<not> (\<exists>x \<in> set items. item_id x = a)" by (auto simp: image_iff)
    from incFiltered_absent[OF this] True show ?thesis by (simp add: incFiltered_def)
  next
    case False
    with Cons show ?thesis by (simp add: incFiltered_def)
  qed
qed

lemma setItems_comp: "setItems eid f (setItems eid g d) = setItems eid (\<lambda>x. f (g x)) d"
  by (simp add: setItems_def split: option.splits)

lemma setItems_same:
  "(\<And>e. events d eid = Some e \<Longrightarrow> f (merchandiseItems e) = merchandiseItems e) \<Longrightarrow>
   setItems eid f d = d"
  by (simp add: setItems_def map_upd_triv split: option.splits)

lemma event_update_swap:
  "x\<lparr>merchandiseItems := a, registrationCount := b\<rparr> =
   x\<lparr>registrationCount := b, merchandiseItems := a\<rparr>"
  by (cases x) simp

lemma releaseSlot_setItems:
  "releaseSlot eid (setItems eid f d) = setItems eid f (releaseSlot eid d)"
  by (simp add: setItems_def releaseSlot_def event_update_swap split: option.splits)

lemma registrations_setItems: "registrations (setItems eid f d) = registrations d"
  by (simp add: setItems_def split: option.splits)

lemma registrations_releaseSlot: "registrations (releaseSlot eid d) = registrations d"
  by (simp add: releaseSlot_def split: option.splits)

lemma restoreFiltered_snoc:
  "restoreFiltered eid (ds @ [p]) d =
   setItems eid (incFiltered (fst p) (snd p) 1) (restoreFiltered eid ds d)"
  by (simp add: restoreFiltered_def)

lemma restoreFiltered_commute:
  "restoreFiltered eid ds (setItems eid (incFiltered a b k) d) =
   setItems eid (incFiltered a b k) (restoreFiltered eid ds d)"
proof (induction ds arbitrary: d)
  case Nil
  then show ?case by (simp add: restoreFiltered_def)
next
  case (Cons p ds)
  have "setItems eid (incFiltered (fst p) (snd p) 1) (setItems eid (incFiltered a b k) d) =
        setItems eid (incFiltered a b k) (setItems eid (incFiltered (fst p) (snd p) 1) d)"
    by (simp add: setItems_comp incFiltered_commute)
  with Cons.IH[of "setItems eid (incFiltered (fst p) (snd p) 1) d"] show ?case
    by (simp add: restoreFiltered_def)
qed

lemma restoreFiltered_releaseSlot:
  "restoreFiltered eid ds (releaseSlot eid d) = releaseSlot eid (restoreFiltered eid ds d)"
proof (induction ds arbitrary: d)
  case Nil
  then show ?case by (simp add: restoreFiltered_def)
next
  case (Cons p ds)
  from Cons.IH[of "setItems eid (incFiltered (fst p) (snd p) 1) d"] show ?case
    by (simp add: restoreFiltered_def releaseSlot_setItems)
qed

text \<open>Undoing a decrement that has just been made.\<close>

lemma restore_after_decrement:
  "restoreFiltered eid (ds @ [(a, b)]) (setItems eid (incFiltered a b (- 1)) d) =
   restoreFiltered eid ds d"
proof -
  have inv: "setItems eid (incFiltered a b 1) (setItems eid (incFiltered a b (- 1)) x) = x" for x
    by (simp add: setItems_comp incFiltered_inverse setItems_same)
  have snoc: "restoreFiltered eid (ds @ [(a, b)]) x =
      setItems eid (incFiltered a b 1) (restoreFiltered eid ds x)" for x
    using restoreFiltered_snoc[of eid ds "(a, b)" x] by simp
  have comm: "restoreFiltered eid ds (setItems eid (incFiltered a b (- 1)) d) =
      setItems eid (incFiltered a b (- 1)) (restoreFiltered eid ds d)"
    by (rule restoreFiltered_commute)
  show ?thesis unfolding snoc comm by (rule inv)
qed

lemma restoreMatched_eq: "restoreMatched eid ds d = restoreFiltered eid ds d"
proof -
  have "(case events acc eid of
          None \<Rightarrow> acc
        | Some e \<Rightarrow>
            if \<exists>it \<in> set (merchandiseItems e). item_id it = fst p
            then setItems eid (incFiltered (fst p) (snd p) 1) acc else acc)
        = setItems eid (incFiltered (fst p) (snd p) 1) acc" for acc p
  proof (cases "events acc eid")
    case None
    then show ?thesis by (simp add: setItems_def)
  next
    case (Some e)
    show ?thesis
    proof (cases "\<exists>it \<in> set (merchandiseItems e). item_id it = fst p")
      case True
      with Some show ?thesis by simp
    next
      case False
      from incFiltered_absent[OF False] Some
      have "setItems eid (incFiltered (fst p) (snd p) 1) acc = acc"
        by (intro setItems_same) simp
      with Some False show ?thesis by simp
    qed
  qed
  then show ?thesis by (simp add: restoreMatched_def restoreFiltered_def)
qed

lemma itemsOk_setItems_incFiltered:
  "itemsOk d eid \<Longrightarrow> itemsOk (setItems eid (incFiltered a b k) d) eid"
  by (simp add: itemsOk_def setItems_def distinctItems_def item_ids_incFiltered split: option.splits)

lemma setItems_positional:
  "itemsOk d eid \<Longrightarrow> setItems eid (incPositional a b k) d = setItems eid (incFiltered a b k) d"
  by (simp add: itemsOk_def setItems_def distinctItems_def incPositional_distinct split: option.splits)

lemma restorePositional_eq:
  "itemsOk d eid \<Longrightarrow> restorePositional eid ds d = restoreFiltered eid ds d"
proof (induction ds arbitrary: d)
  case Nil
  then show ?case by (simp add: restorePositional_def restoreFiltered_def)
next
  case (Cons p ds)
  from Cons.prems have eq: "setItems eid (incPositional (fst p) (snd p) 1) d =
      setItems eid (incFiltered (fst p) (snd p) 1) d"
    by (rule setItems_positional)
  from Cons.prems have "itemsOk (setItems eid (incFiltered (fst p) (snd p) 1) d) eid"
    by (rule itemsOk_setItems_incFiltered)
  from Cons.IH[OF this] eq show ?case
    by (simp add: restorePositional_def restoreFiltered_def)
qed

lemma decrementStock_True:
  "decrementStock eid a b d = (True, d1) \<Longrightarrow> d1 = setItems eid (incFiltered a b (- 1)) d"
  by (auto simp: decrementStock_def split: option.splits if_splits)

lemma decrementStock_False: "decrementStock eid a b d = (False, d1) \<Longrightarrow> d1 = d"
  by (auto simp: decrementStock_def split: option.splits if_splits)

lemma selectionLoop_failure:
  "selectionLoop eid sels items processed total0 dec d = (Inl err, d') \<Longrightarrow> itemsOk d eid \<Longrightarrow>
   d' = releaseSlot eid (restoreFiltered eid dec d)"
proof (induction items arbitrary: processed total0 dec d)
  case Nil
  then show ?case by simp
next
  case (Cons it items)
  show ?case
  proof (cases "truthy (map_of sels (item_id it))")
    case None
    with Cons show ?thesis
      by (auto simp: restorePositional_eq split: if_splits)
  next
    case (Some sid)
    show ?thesis
    proof (cases "find (\<lambda>op. opt_id op = sid) (options it)")
      case None
      with Some Cons.prems show ?thesis by (simp add: restorePositional_eq)
    next
      case (Some opt)
      note opt = this
      obtain ok d1 where dec: "decrementStock eid (item_id it) (opt_id opt) d = (ok, d1)"
        by (cases "decrementStock eid (item_id it) (opt_id opt) d")
      show ?thesis
      proof (cases ok)
        case False
        with dec opt \<open>truthy (map_of sels (item_id it)) = Some sid\<close> Cons.prems show ?thesis
          by (simp add: restoreMatched_eq)
      next
        case True
        with dec have d1: "d1 = setItems eid (incFiltered (item_id it) (opt_id opt) (- 1)) d"
          by (simp add: decrementStock_True)
        with Cons.prems(2) have ok1: "itemsOk d1 eid" by (simp add: itemsOk_setItems_incFiltered)
        from True dec opt \<open>truthy (map_of sels (item_id it)) = Some sid\<close> Cons.prems(1)
        have rec: "selectionLoop eid sels items
            (AList.update (item_id it)
               \<lparr>sel_itemName = itemName it, optionId = opt_id opt,
                optionLabel = opt_label opt, sel_price = price opt\<rparr> processed)
            (total0 + price opt) (dec @ [(item_id it, opt_id opt)]) d1 = (Inl err, d')"
          by simp
        from Cons.IH[OF rec ok1] show ?thesis
          by (simp add: d1 restore_after_decrement)
      qed
    qed
  qed
qed

lemma selectionLoop_success:
  "selectionLoop eid sels items processed total0 dec d = (Inr (processed', total', dec'), d') \<Longrightarrow>
   restoreFiltered eid dec' d' = restoreFiltered eid dec d"
proof (induction items arbitrary: processed total0 dec d)
  case Nil
  then show ?case by simp
next
  case (Cons it items)
  show ?case
  proof (cases "truthy (map_of sels (item_id it))")
    case None
    with Cons show ?thesis by (auto split: if_splits)
  next
    case (Some sid)
    show ?thesis
    proof (cases "find (\<lambda>op. opt_id op = sid) (options it)")
      case None
      with Some Cons.prems show ?thesis by simp
    next
      case (Some opt)
      note opt = this
      obtain ok d1 where dec: "decrementStock eid (item_id it) (opt_id opt) d = (ok, d1)"
        by (cases "decrementStock eid (item_id it) (opt_id opt) d")
      show ?thesis
      proof (cases ok)
        case False
        with dec opt \<open>truthy (map_of sels (item_id it)) = Some sid\<close> Cons.prems show ?thesis
          by simp
      next
        case True
        with dec have d1: "d1 = setItems eid (incFiltered (item_id it) (opt_id opt) (- 1)) d"
          by (simp add: decrementStock_True)
        from True dec opt \<open>truthy (map_of sels (item_id it)) = Some sid\<close> Cons.prems(1)
        have rec: "selectionLoop eid sels items
            (AList.update (item_id it)
               \<lparr>sel_itemName = itemName it, optionId = opt_id opt,
                optionLabel = opt_label opt, sel_price = price opt\<rparr> processed)
            (total0 + price opt) (dec @ [(item_id it, opt_id opt)]) d1
              = (Inr (processed', total', dec'), d')"
          by simp
        from Cons.IH[OF rec] show ?thesis
          by (simp add: d1 restore_after_decrement)
      qed
    qed
  qed
qed

section \<open>Rollback of a failed registration\<close>

lemma reserve_then_release:
  "reserveSlot eid limit d = (True, d1) \<Longrightarrow> releaseSlot eid d1 = d"
  by (auto simp: reserveSlot_def releaseSlot_def map_upd_triv split: option.splits if_splits)

lemma reserveSlot_False: "reserveSlot eid limit d = (False, d1) \<Longrightarrow> d1 = d"
  by (auto simp: reserveSlot_def split: option.splits if_splits)

lemma reserveSlot_True:
  "reserveSlot eid limit d = (True, d1) \<Longrightarrow>
   \<exists>e. events d eid = Some e \<and> registrationCount e < limit \<and>
       d1 = d\<lparr>events := (events d)(eid \<mapsto> e\<lparr>registrationCount := registrationCount e + 1\<rparr>)\<rparr>"
  by (auto simp: reserveSlot_def split: option.splits if_splits)

lemma itemsOk_reserveSlot:
  "reserveSlot eid limit d = (ok, d1) \<Longrightarrow> itemsOk d eid \<Longrightarrow> itemsOk d1 eid"
  by (auto simp: reserveSlot_def itemsOk_def split: option.splits if_splits)

lemma restoreFiltered_Nil: "restoreFiltered eid [] d = d"
  by (simp add: restoreFiltered_def)

lemma Registration_create_Inl: "Registration_create en r d = (Inl ce, d1) \<Longrightarrow> d1 = d"
  by (auto simp: Registration_create_def split: if_splits)

text \<open>The merchandise route: whatever the failure, the database is left as it was, on an
  event with distinct item ids.\<close>

lemma registerMerch_failure_unchanged:
  assumes res: "registerMerch en u eid sels d = (Inl err, d')"
      and ok: "itemsOk d eid"
  shows "d' = d"
proof (cases "events d eid")
  case None
  with res show ?thesis by (simp add: registerMerch_def)
next
  case (Some ev)
  note ev = this
  show ?thesis
  proof (cases "registrationOpen ev \<and> eventType ev = Merchandise \<and> checkEligibility ev u = None
      \<and> \<not> deadlinePassed (now en) ev \<and> findByEventUser eid (user_id u) d = None
      \<and> soldOutRequired (merchandiseItems ev) = None")
    case False
    with res ev show ?thesis
      by (auto simp: registerMerch_def split: option.splits if_splits)
  next
    case True
    note checks = this
    obtain ok1 d1 where rs: "reserveSlot eid (registrationLimit ev) d = (ok1, d1)"
      by (cases "reserveSlot eid (registrationLimit ev) d")
    show ?thesis
    proof (cases ok1)
      case False
      with res ev checks rs show ?thesis by (simp add: registerMerch_def)
    next
      case True
      note ok1 = this
      from rs ok1 have rel: "releaseSlot eid d1 = d" by (simp add: reserve_then_release)
      from rs ok have ok': "itemsOk d1 eid" by (rule itemsOk_reserveSlot)
      obtain out d2 where lp: "selectionLoop eid sels (merchandiseItems ev) [] 0 [] d1 = (out, d2)"
        by (cases "selectionLoop eid sels (merchandiseItems ev) [] 0 [] d1")
      show ?thesis
      proof (cases out)
        case (Inl e)
        with res ev checks rs ok1 lp have "d' = d2" by (simp add: registerMerch_def)
        moreover from lp Inl have "d2 = releaseSlot eid (restoreFiltered eid [] d1)"
          using selectionLoop_failure[OF _ ok'] by simp
        ultimately show ?thesis using rel by (simp add: restoreFiltered_Nil)
      next
        case (Inr triple)
        obtain processed merchTotal dec where t: "triple = (processed, merchTotal, dec)"
          by (cases triple)
        from lp Inr t have restored: "restoreFiltered eid dec d2 = d1"
          using selectionLoop_success[of eid sels "merchandiseItems ev" "[]" 0 "[]" d1 processed merchTotal dec d2]
          by (simp add: restoreFiltered_Nil)
        have "restoreFiltered eid dec (releaseSlot eid d2) = d"
          by (simp add: restoreFiltered_releaseSlot restored rel)
        with res ev checks rs ok1 lp Inr t show ?thesis
          by (auto simp: registerMerch_def Let_def split: prod.splits sum.splits if_splits
              dest: Registration_create_Inl)
      qed
    qed
  qed
qed

text \<open>The normal route: every failure of \<open>registerNormal\<close> but the required-field one
  leaves the database as it was; the required-field return comes after the reservation and
  keeps the slot. (The request body is a parsed object here; a request without one is not
  part of the model.)\<close>

lemma registerNormal_failure_unchanged:
  assumes res: "registerNormal en u eid body d = (Inl err, d')"
      and other: "\<And>lbl. err \<noteq> RequiredFieldMissing lbl"
  shows "d' = d"
proof (cases "events d eid")
  case None
  with res show ?thesis by (simp add: registerNormal_def)
next
  case (Some ev)
  note ev = this
  show ?thesis
  proof (cases "registrationOpen ev \<and> eventType ev = Normal \<and> checkEligibility ev u = None
      \<and> \<not> deadlinePassed (now en) ev \<and> findByEventUser eid (user_id u) d = None")
    case False
    with res ev show ?thesis
      by (auto simp: registerNormal_def split: option.splits if_splits)
  next
    case True
    note checks = this
    obtain ok1 d1 where rs: "reserveSlot eid (registrationLimit ev) d = (ok1, d1)"
      by (cases "reserveSlot eid (registrationLimit ev) d")
    show ?thesis
    proof (cases ok1)
      case False
      with res ev checks rs show ?thesis by (simp add: registerNormal_def)
    next
      case True
      note ok1 = this
      from rs ok1 have rel: "releaseSlot eid d1 = d" by (simp add: reserve_then_release)
      show ?thesis
      proof (cases "missingRequired (customForm ev) body")
        case (Some lbl)
        with res ev checks rs ok1 other[of lbl] show ?thesis by (simp add: registerNormal_def)
      next
        case None
        with res ev checks rs ok1 rel show ?thesis
          by (auto simp: registerNormal_def Let_def split: prod.splits sum.splits if_splits
              dest: Registration_create_Inl)
      qed
    qed
  qed
qed

lemma registerNormal_missing_field_keeps_slot:
  assumes res: "registerNormal en u eid body d = (Inl (RequiredFieldMissing lbl), d')"
      and ev: "events d eid = Some ev"
  shows "d' = d\<lparr>events := (events d)(eid \<mapsto> ev\<lparr>registrationCount := registrationCount ev + 1\<rparr>)\<rparr>"
  using res ev
  by (auto simp: registerNormal_def Let_def split: option.splits prod.splits sum.splits if_splits bool.splits
      dest!: reserveSlot_True Registration_create_Inl)

text \<open>
  Claim C1, evaluated on the code. Alice registers for the talk (one place, none taken, one
  required form field) and submits no form response. The route reserves the slot (step 6)
  and then returns \<open>RequiredFieldMissing\<close> (step 7) without releasing it:
  \<^verbatim>\<open>registrationCount\<close> is 1 after the failed call, 0 before it, and no registration exists.
\<close>

theorem normal_missing_field_leaks_slot:
  "registerNormal env1 alice ''talk'' [] db0 =
     (Inl (RequiredFieldMissing ''College''),
      db0\<lparr>events := (events db0)(''talk'' \<mapsto> talk\<lparr>registrationCount := 1\<rparr>)\<rparr>)
   \<and> countOf db0 ''talk'' = Some 0
   \<and> countOf (snd (registerNormal env1 alice ''talk'' [] db0)) ''talk'' = Some 1
   \<and> registrations (snd (registerNormal env1 alice ''talk'' [] db0)) = []"
proof -
  have "registerNormal env1 alice ''talk'' [] db0 =
     (Inl (RequiredFieldMissing ''College''),
      db0\<lparr>events := (events db0)(''talk'' \<mapsto> talk\<lparr>registrationCount := 1\<rparr>)\<rparr>)"
    by (simp add: registerNormal_def db0_def talk_def env1_def alice_def checkEligibility_def
        deadlinePassed_def findByEventUser_def reserveSlot_def isMissing_def)
  moreover have "countOf db0 ''talk'' = Some 0" by (simp add: countOf_def db0_def talk_def)
  ultimately show ?thesis by (simp add: countOf_def db0_def)
qed

section \<open>Ticket code collisions\<close>

lemma registrations_reserveSlot:
  "reserveSlot eid limit d = (ok, d1) \<Longrightarrow> registrations d1 = registrations d"
  by (auto simp: reserveSlot_def split: option.splits if_splits)

lemma registrations_restoreFiltered: "registrations (restoreFiltered eid ds d) = registrations d"
proof (induction ds arbitrary: d)
  case Nil
  then show ?case by (simp add: restoreFiltered_def)
next
  case (Cons p ds)
  from Cons[of "setItems eid (incFiltered (fst p) (snd p) 1) d"] show ?case
    by (simp add: restoreFiltered_def registrations_setItems)
qed

lemma registrations_selectionLoop:
  assumes "selectionLoop eid sels items processed total0 dec d = (Inr (processed', total', dec'), d')"
  shows "registrations d' = registrations d"
proof -
  from selectionLoop_success[OF assms]
  have "registrations (restoreFiltered eid dec' d') = registrations (restoreFiltered eid dec d)"
    by simp
  then show ?thesis by (simp add: registrations_restoreFiltered)
qed

lemma Registration_create_collision:
  assumes "\<not> storageFault en"
      and "\<exists>x \<in> set (registrations d). ticketId x = ticketId r"
  shows "Registration_create en r d = (Inl DuplicateKey, d)"
  using assms by (simp add: Registration_create_def)

lemma Registration_create_Inr:
  "Registration_create en r d = (Inr r', d') \<Longrightarrow>
   \<not> storageFault en \<and> r' = r \<and> d' = d\<lparr>registrations := registrations d @ [r]\<rparr>
   \<and> \<not> (\<exists>x \<in> set (registrations d). eventId x = eventId r \<and> userId x = userId r)
   \<and> \<not> (\<exists>x \<in> set (registrations d). ticketId x = ticketId r)"
  by (auto simp: Registration_create_def split: if_splits)

lemma normal_collision:
  assumes coll: "\<exists>x \<in> set (registrations d). ticketId x = ''FEL-'' @ randomHex en"
      and succ: "registerNormal (en\<lparr>randomHex := h\<rparr>) u eid body d = (Inr r, d')"
  shows "findByEventUser eid (user_id u) d = None
       \<and> registerNormal en u eid body d = (Inl AlreadyRegistered, d)"
proof (cases "events d eid")
  case None
  with succ show ?thesis by (simp add: registerNormal_def)
next
  case (Some ev)
  note ev = this
  show ?thesis
  proof (cases "registrationOpen ev \<and> eventType ev = Normal \<and> checkEligibility ev u = None
      \<and> \<not> deadlinePassed (now en) ev \<and> findByEventUser eid (user_id u) d = None")
    case False
    with succ ev show ?thesis
      by (auto simp: registerNormal_def split: option.splits if_splits)
  next
    case True
    note checks = this
    obtain ok1 d1 where rs: "reserveSlot eid (registrationLimit ev) d = (ok1, d1)"
      by (cases "reserveSlot eid (registrationLimit ev) d")
    show ?thesis
    proof (cases ok1)
      case False
      with succ ev checks rs show ?thesis by (simp add: registerNormal_def)
    next
      case True
      note ok1 = this
      from rs ok1 have rel: "releaseSlot eid d1 = d" by (simp add: reserve_then_release)
      from rs have regs: "registrations d1 = registrations d" by (rule registrations_reserveSlot)
      show ?thesis
      proof (cases "missingRequired (customForm ev) body")
        case (Some lbl)
        with succ ev checks rs ok1 show ?thesis by (simp add: registerNormal_def)
      next
        case None
        from succ ev checks rs ok1 None have nofault: "\<not> storageFault en"
          by (auto simp: registerNormal_def Let_def Registration_create_def
              split: prod.splits sum.splits if_splits)
        have cr: "Registration_create en x d1 = (Inl DuplicateKey, d1)"
          if "ticketId x = ''FEL-'' @ randomHex en" for x
          using Registration_create_collision[OF nofault, of d1 x] coll regs that by simp
        from ev checks rs ok1 None rel show ?thesis
          by (simp add: registerNormal_def Let_def cr)
      qed
    qed
  qed
qed

lemma merch_collision:
  assumes coll: "\<exists>x \<in> set (registrations d). ticketId x = ''FEL-'' @ randomHex en"
      and succ: "registerMerch (en\<lparr>randomHex := h\<rparr>) u eid sels d = (Inr r, d')"
  shows "findByEventUser eid (user_id u) d = None
       \<and> registerMerch en u eid sels d = (Inl AlreadyRegistered, d)"
proof (cases "events d eid")
  case None
  with succ show ?thesis by (simp add: registerMerch_def)
next
  case (Some ev)
  note ev = this
  show ?thesis
  proof (cases "registrationOpen ev \<and> eventType ev = Merchandise \<and> checkEligibility ev u = None
      \<and> \<not> deadlinePassed (now en) ev \<and> findByEventUser eid (user_id u) d = None
      \<and> soldOutRequired (merchandiseItems ev) = None")
    case False
    with succ ev show ?thesis
      by (auto simp: registerMerch_def split: option.splits if_splits)
  next
    case True
    note checks = this
    obtain ok1 d1 where rs: "reserveSlot eid (registrationLimit ev) d = (ok1, d1)"
      by (cases "reserveSlot eid (registrationLimit ev) d")
    show ?thesis
    proof (cases ok1)
      case False
      with succ ev checks rs show ?thesis by (simp add: registerMerch_def)
    next
      case True
      note ok1 = this
      from rs ok1 have rel: "releaseSlot eid d1 = d" by (simp add: reserve_then_release)
      from rs have regs: "registrations d1 = registrations d" by (rule registrations_reserveSlot)
      obtain out d2 where lp: "selectionLoop eid sels (merchandiseItems ev) [] 0 [] d1 = (out, d2)"
        by (cases "selectionLoop eid sels (merchandiseItems ev) [] 0 [] d1")
      show ?thesis
      proof (cases out)
        case (Inl e)
        with succ ev checks rs ok1 lp show ?thesis by (simp add: registerMerch_def)
      next
        case (Inr triple)
        obtain processed merchTotal dec where t: "triple = (processed, merchTotal, dec)"
          by (cases triple)
        from lp Inr t have restored: "restoreFiltered eid dec d2 = d1"
          using selectionLoop_success[of eid sels "merchandiseItems ev" "[]" 0 "[]" d1 processed merchTotal dec d2]
          by (simp add: restoreFiltered_Nil)
        have undone: "restoreFiltered eid dec (releaseSlot eid d2) = d"
          by (simp add: restoreFiltered_releaseSlot restored rel)
        from lp Inr t have regs2: "registrations d2 = registrations d1"
          using registrations_selectionLoop[of eid sels "merchandiseItems ev" "[]" 0 "[]" d1 processed merchTotal dec d2]
          by simp
        from succ ev checks rs ok1 lp Inr t have nofault: "\<not> storageFault en"
          by (auto simp: registerMerch_def Let_def Registration_create_def
              split: prod.splits sum.splits if_splits)
        have cr: "Registration_create en x d2 = (Inl DuplicateKey, d2)"
          if "ticketId x = ''FEL-'' @ randomHex en" for x
          using Registration_create_collision[OF nofault, of d2 x] coll regs regs2 that by simp
        from ev checks rs ok1 lp Inr t undone show ?thesis
          by (simp add: registerMerch_def Let_def cr)
      qed
    qed
  qed
qed

text \<open>
  Claim C9. Let some stored registration already carry the ticket code that the request draws
  (\<^verbatim>\<open>"FEL-" + randomBytes(4)\<close>). If the very same request would succeed with another draw
  \<open>h\<close> (so the participant has no registration for the event and every check and reservation
  passes), then with the colliding draw it answers \<open>AlreadyRegistered\<close>, and the database is
  exactly the one before the call: the slot and every stock unit are released, no registration
  is written, and no second ticket code is tried. This holds on both routes.
\<close>

theorem ticket_collision_reports_AlreadyRegistered:
  assumes coll: "\<exists>x \<in> set (registrations d). ticketId x = ''FEL-'' @ randomHex en"
  shows "(registerNormal (en\<lparr>randomHex := h\<rparr>) u eid body d = (Inr r, d') \<longrightarrow>
            findByEventUser eid (user_id u) d = None
          \<and> registerNormal en u eid body d = (Inl AlreadyRegistered, d))
       \<and> (registerMerch (en\<lparr>randomHex := h\<rparr>) u eid sels d = (Inr r, d') \<longrightarrow>
            findByEventUser eid (user_id u) d = None
          \<and> registerMerch en u eid sels d = (Inl AlreadyRegistered, d))"
  using normal_collision[OF coll] merch_collision[OF coll] by blast

text \<open>Bob orders the shirt and draws the code of Alice's ticket; with the draw 77777777 the
  same order goes through.\<close>

theorem ticket_collision_witness:
  "(\<exists>x \<in> set (registrations db1). ticketId x = ''FEL-'' @ randomHex env2)
   \<and> registerMerch (env2\<lparr>randomHex := ''77777777''\<rparr>) bob ''sale'' [(''i1'', ''m'')] db1 =
       (Inr (orderB\<lparr>ticketId := ''FEL-77777777''\<rparr>),
        \<lparr>events = [''talk'' \<mapsto> talk\<lparr>registrationCount := 1\<rparr>, ''sale'' \<mapsto> soldOut],
         registrations = [ticketA, orderB\<lparr>ticketId := ''FEL-77777777''\<rparr>]\<rparr>)
   \<and> findByEventUser ''sale'' (user_id bob) db1 = None
   \<and> registerMerch env2 bob ''sale'' [(''i1'', ''m'')] db1 = (Inl AlreadyRegistered, db1)"
proof -
  have coll: "\<exists>x \<in> set (registrations db1). ticketId x = ''FEL-'' @ randomHex env2"
    by (simp add: db1_def ticketA_def env2_def)
  have succ: "registerMerch (env2\<lparr>randomHex := ''77777777''\<rparr>) bob ''sale'' [(''i1'', ''m'')] db1 =
       (Inr (orderB\<lparr>ticketId := ''FEL-77777777''\<rparr>),
        \<lparr>events = [''talk'' \<mapsto> talk\<lparr>registrationCount := 1\<rparr>, ''sale'' \<mapsto> soldOut],
         registrations = [ticketA, orderB\<lparr>ticketId := ''FEL-77777777''\<rparr>]\<rparr>)"
    by (simp add: registerMerch_def db1_def sale_def shirt_def soldOut_def env2_def bob_def
        checkEligibility_def deadlinePassed_def findByEventUser_def ticketA_def orderB_def
        reserveSlot_def truthy_def decrementStock_def setItems_def incFiltered_def incOptions_def
        Registration_create_def Let_def fun_upd_twist)
  from ticket_collision_reports_AlreadyRegistered[OF coll] succ coll
  show ?thesis by blast
qed

section \<open>Payment state and ticket at registration\<close>

lemma update_absent: "k \<notin> fst ` set al \<Longrightarrow> AList.update k v al = al @ [(k, v)]"
  by (induction al) auto




lemma registerNormal_created:
  assumes succ: "registerNormal en u eid body d = (Inr r, d')"
      and ev: "events d eid = Some ev"
  shows "merchandiseSelections r = [] \<and> amountPaid r = registrationFee ev
       \<and> paymentStatus r = (if 0 < registrationFee ev then Pending else NotRequired)
       \<and> qrCode r = (if registrationFee ev = 0 then toDataURL (ticketId r) else [])
       \<and> eventId r = eid \<and> userId r = user_id u \<and> ticketId r = ''FEL-'' @ randomHex en
       \<and> registrations d' = registrations d @ [r]"
  using succ ev
  by (auto simp: registerNormal_def Let_def split: option.splits prod.splits sum.splits if_splits bool.splits
      dest!: Registration_create_Inr dest: registrations_reserveSlot)

lemma registerMerch_created:
  assumes succ: "registerMerch en u eid sels d = (Inr r, d')"
      and ev: "events d eid = Some ev"
  shows "\<exists>d1 d2 dec.
           reserveSlot eid (registrationLimit ev) d = (True, d1)
         \<and> selectionLoop eid sels (merchandiseItems ev) [] 0 [] d1 =
             (Inr (merchandiseSelections r, amountPaid r - registrationFee ev, dec), d2)
         \<and> paymentStatus r = (if 0 < amountPaid r then Pending else NotRequired)
         \<and> qrCode r = (if 0 < amountPaid r then [] else toDataURL (ticketId r))
         \<and> eventId r = eid \<and> userId r = user_id u \<and> ticketId r = ''FEL-'' @ randomHex en
         \<and> d' = d2\<lparr>registrations := registrations d2 @ [r]\<rparr>"
  using succ ev
  by (auto simp: registerMerch_def Let_def split: option.splits prod.splits sum.splits if_splits bool.splits
      dest!: Registration_create_Inr)



lemma qrAbsent_events: "registrations d' = registrations d \<Longrightarrow> qrAbsent d' rid = qrAbsent d rid"
  by (simp add: qrAbsent_def)




section \<open>One registration per participant and event\<close>

lemma pairs_updateFirst:
  "(\<And>x. eventId (f x) = eventId x \<and> userId (f x) = userId x) \<Longrightarrow>
   map (\<lambda>r. (eventId r, userId r)) (updateFirst rid f rs) = map (\<lambda>r. (eventId r, userId r)) rs"
  by (induction rs) auto

lemma uniquePairs_save:
  "(\<And>x. eventId (f x) = eventId x \<and> userId (f x) = userId x) \<Longrightarrow>
   uniquePairs (saveRegistration rid f d) = uniquePairs d"
  by (simp add: uniquePairs_def saveRegistration_def pairs_updateFirst)

lemma uniquePairs_registrations:
  "registrations d' = registrations d \<Longrightarrow> uniquePairs d' = uniquePairs d"
  by (simp add: uniquePairs_def)

lemma registrations_restorePositional: "registrations (restorePositional eid ds d) = registrations d"
proof (induction ds arbitrary: d)
  case Nil
  then show ?case by (simp add: restorePositional_def)
next
  case (Cons p ds)
  from Cons[of "setItems eid (incPositional (fst p) (snd p) 1) d"] show ?case
    by (simp add: restorePositional_def registrations_setItems)
qed

lemma registrations_decrementStock:
  "decrementStock eid a b d = (ok, d1) \<Longrightarrow> registrations d1 = registrations d"
  by (auto simp: decrementStock_def registrations_setItems split: option.splits if_splits)

lemma registrations_selectionLoop_any:
  "selectionLoop eid sels items processed total0 dec d = (out, d') \<Longrightarrow>
   registrations d' = registrations d"
proof (induction items arbitrary: processed total0 dec d)
  case Nil
  then show ?case by simp
next
  case (Cons it items)
  show ?case
  proof (cases "truthy (map_of sels (item_id it))")
    case None
    with Cons show ?thesis
      by (auto simp: registrations_releaseSlot registrations_restorePositional split: if_splits)
  next
    case (Some sid)
    note sid = this
    show ?thesis
    proof (cases "find (\<lambda>op. opt_id op = sid) (options it)")
      case None
      with sid Cons.prems show ?thesis
        by (auto simp: registrations_releaseSlot registrations_restorePositional)
    next
      case (Some opt)
      note opt = this
      obtain ok d1 where dec: "decrementStock eid (item_id it) (opt_id opt) d = (ok, d1)"
        by (cases "decrementStock eid (item_id it) (opt_id opt) d")
      show ?thesis
      proof (cases ok)
        case False
        with dec opt sid Cons.prems show ?thesis
          by (auto simp: registrations_releaseSlot restoreMatched_eq registrations_restoreFiltered)
      next
        case True
        from True dec opt sid Cons.prems
        have rec: "selectionLoop eid sels items
            (AList.update (item_id it)
               \<lparr>sel_itemName = itemName it, optionId = opt_id opt,
                optionLabel = opt_label opt, sel_price = price opt\<rparr> processed)
            (total0 + price opt) (dec @ [(item_id it, opt_id opt)]) d1 = (out, d')"
          by simp
        from Cons.IH[OF rec] registrations_decrementStock[OF dec] show ?thesis by simp
      qed
    qed
  qed
qed

lemma registerNormal_ledger:
  assumes res: "registerNormal en u eid body d = (out, d')"
  shows "registrations d' = registrations d
       \<or> (\<exists>r. out = Inr r \<and> registrations d' = registrations d @ [r]
              \<and> eventId r = eid \<and> userId r = user_id u
              \<and> \<not> (\<exists>x \<in> set (registrations d). eventId x = eid \<and> userId x = user_id u))"
proof (cases out)
  case (Inl err)
  show ?thesis
  proof (cases "\<exists>lbl. err = RequiredFieldMissing lbl")
    case True
    then obtain lbl where lbl: "err = RequiredFieldMissing lbl" by blast
    show ?thesis
    proof (cases "events d eid")
      case None
      with res show ?thesis by (simp add: registerNormal_def)
    next
      case (Some ev)
      from registerNormal_missing_field_keeps_slot[OF res[unfolded Inl lbl] Some]
      show ?thesis by simp
    qed
  next
    case False
    with registerNormal_failure_unchanged[OF res[unfolded Inl]] show ?thesis by blast
  qed
next
  case (Inr r)
  show ?thesis
  proof (cases "events d eid")
    case None
    with res Inr show ?thesis by (simp add: registerNormal_def)
  next
    case (Some ev)
    from registerNormal_created[OF res[unfolded Inr] Some]
    have app: "registrations d' = registrations d @ [r]" and e: "eventId r = eid"
      and us: "userId r = user_id u" by simp_all
    have none: "findByEventUser eid (user_id u) d = None"
      using res Inr Some by (auto simp: registerNormal_def split: option.splits if_splits)
    then have "\<not> (\<exists>x \<in> set (registrations d). eventId x = eid \<and> userId x = user_id u)"
      by (simp add: findByEventUser_def find_None_iff)
    with Inr app e us show ?thesis by blast
  qed
qed

lemma registerMerch_ledger:
  assumes res: "registerMerch en u eid sels d = (out, d')"
  shows "registrations d' = registrations d
       \<or> (\<exists>r. out = Inr r \<and> registrations d' = registrations d @ [r]
              \<and> eventId r = eid \<and> userId r = user_id u
              \<and> \<not> (\<exists>x \<in> set (registrations d). eventId x = eid \<and> userId x = user_id u))"
proof (cases "events d eid")
  case None
  with res show ?thesis by (auto simp: registerMerch_def)
next
  case (Some ev)
  note ev = this
  show ?thesis
  proof (cases out)
    case (Inr r)
    from registerMerch_created[OF res[unfolded Inr] ev] obtain d1 d2 dec where
      rs: "reserveSlot eid (registrationLimit ev) d = (True, d1)"
      and lp: "selectionLoop eid sels (merchandiseItems ev) [] 0 [] d1 =
             (Inr (merchandiseSelections r, amountPaid r - registrationFee ev, dec), d2)"
      and e: "eventId r = eid" and us: "userId r = user_id u"
      and d': "d' = d2\<lparr>registrations := registrations d2 @ [r]\<rparr>"
      by blast
    from registrations_selectionLoop_any[OF lp] registrations_reserveSlot[OF rs] d'
    have app: "registrations d' = registrations d @ [r]" by simp
    have none: "findByEventUser eid (user_id u) d = None"
      using res Inr ev by (auto simp: registerMerch_def split: option.splits if_splits)
    then have "\<not> (\<exists>x \<in> set (registrations d). eventId x = eid \<and> userId x = user_id u)"
      by (simp add: findByEventUser_def find_None_iff)
    with Inr app e us show ?thesis by blast
  next
    case (Inl err)
    show ?thesis
    proof (cases "registrationOpen ev \<and> eventType ev = Merchandise \<and> checkEligibility ev u = None
        \<and> \<not> deadlinePassed (now en) ev \<and> findByEventUser eid (user_id u) d = None
        \<and> soldOutRequired (merchandiseItems ev) = None")
      case False
      with res ev have "d' = d"
        by (auto simp: registerMerch_def split: option.splits if_splits)
      then show ?thesis by simp
    next
      case True
      note checks = this
      obtain ok1 d1 where rs: "reserveSlot eid (registrationLimit ev) d = (ok1, d1)"
        by (cases "reserveSlot eid (registrationLimit ev) d")
      note r1 = registrations_reserveSlot[OF rs]
      show ?thesis
      proof (cases ok1)
        case False
        with res ev checks rs have "d' = d" by (simp add: registerMerch_def)
        then show ?thesis by simp
      next
        case True
        note ok1 = this
        obtain lo d2 where lp: "selectionLoop eid sels (merchandiseItems ev) [] 0 [] d1 = (lo, d2)"
          by (cases "selectionLoop eid sels (merchandiseItems ev) [] 0 [] d1")
        note r2 = registrations_selectionLoop_any[OF lp]
        show ?thesis
        proof (cases lo)
          case (Inl e)
          with res ev checks rs ok1 lp have "d' = d2" by (simp add: registerMerch_def)
          with r1 r2 show ?thesis by simp
        next
          case (Inr triple)
          obtain processed merchTotal dec where t: "triple = (processed, merchTotal, dec)"
            by (cases triple)
          from res Inl ev checks rs ok1 lp Inr t
          have "d' = restoreFiltered eid dec (releaseSlot eid d2)"
            by (auto simp: registerMerch_def Let_def split: prod.splits sum.splits if_splits)
          with r1 r2 show ?thesis
            by (simp add: registrations_restoreFiltered registrations_releaseSlot)
        qed
      qed
    qed
  qed
qed

lemma uniquePairs_grow:
  assumes u: "uniquePairs d"
      and l: "registrations d' = registrations d
       \<or> (\<exists>r. out = Inr r \<and> registrations d' = registrations d @ [r]
              \<and> eventId r = eid \<and> userId r = uid
              \<and> \<not> (\<exists>x \<in> set (registrations d). eventId x = eid \<and> userId x = uid))"
  shows "uniquePairs d'"
proof -
  from l show ?thesis
  proof
    assume "registrations d' = registrations d"
    with u show ?thesis by (simp add: uniquePairs_def)
  next
    assume "\<exists>r. out = Inr r \<and> registrations d' = registrations d @ [r]
              \<and> eventId r = eid \<and> userId r = uid
              \<and> \<not> (\<exists>x \<in> set (registrations d). eventId x = eid \<and> userId x = uid)"
    then obtain r where app: "registrations d' = registrations d @ [r]"
      and e: "eventId r = eid" "userId r = uid"
      and n: "\<not> (\<exists>x \<in> set (registrations d). eventId x = eid \<and> userId x = uid)"
      by blast
    from n e have "(eventId r, userId r) \<notin> (\<lambda>r. (eventId r, userId r)) ` set (registrations d)"
      by auto
    with u app show ?thesis by (simp add: uniquePairs_def)
  qed
qed

lemma uniquePairs_registerNormal:
  assumes u: "uniquePairs d"
  shows "uniquePairs (snd (registerNormal en usr eid body d))"
proof -
  obtain out d' where r: "registerNormal en usr eid body d = (out, d')"
    by (cases "registerNormal en usr eid body d")
  from uniquePairs_grow[OF u registerNormal_ledger[OF r]] r show ?thesis by simp
qed

lemma uniquePairs_registerMerch:
  assumes u: "uniquePairs d"
  shows "uniquePairs (snd (registerMerch en usr eid sels d))"
proof -
  obtain out d' where r: "registerMerch en usr eid sels d = (out, d')"
    by (cases "registerMerch en usr eid sels d")
  from uniquePairs_grow[OF u registerMerch_ledger[OF r]] r show ?thesis by simp
qed

lemma uniquePairs_handle:
  assumes u: "uniquePairs d"
  shows "uniquePairs (snd (handle q d))"
proof (cases q)
  case (RegisterNormal en usr eid body)
  with u show ?thesis by (simp add: uniquePairs_registerNormal)
next
  case (RegisterMerch en usr eid sels)
  with u show ?thesis by (simp add: uniquePairs_registerMerch)
next
  case (UploadProof usr eid pp)
  with u show ?thesis
    by (auto simp: uploadPaymentProof_def Let_def uniquePairs_save split: option.splits)
next
  case (Dispose org eid rid act)
  have "uniquePairs (snd (disposePayment org eid rid act d))"
  proof (cases "findOrganizerAndEvent org eid d")
    case (Inl err)
    with u show ?thesis by (simp add: disposePayment_def)
  next
    case (Inr ev)
    note own = this
    show ?thesis
    proof (cases "findById rid d")
      case None
      with u own show ?thesis by (simp add: disposePayment_def)
    next
      case (Some r)
      note found = this
      show ?thesis
      proof (cases act)
        case Approve
        with u own found show ?thesis
          by (simp add: disposePayment_def Let_def uniquePairs_save)
      next
        case OtherAction
        with u own found show ?thesis by (simp add: disposePayment_def)
      next
        case Reject
        show ?thesis
        proof (cases "paymentStatus r = Rejected")
          case True
          with u own found Reject show ?thesis by (simp add: disposePayment_def)
        next
          case False
          let ?f = "\<lambda>x. x\<lparr>paymentStatus := Rejected, qrCode := []\<rparr>"
          have "registrations (snd (disposePayment org eid rid Reject d)) =
              registrations (saveRegistration (reg_id r) ?f d)"
            using own found False
            by (simp add: disposePayment_def Let_def registrations_releaseSlot split: option.splits)
          moreover have "uniquePairs (saveRegistration (reg_id r) ?f d)"
            using u by (simp add: uniquePairs_save)
          ultimately show ?thesis using Reject by (simp add: uniquePairs_def)
        qed
      qed
    qed
  qed
  with Dispose show ?thesis by simp
next
  case (Scan en org eid t)
  with u show ?thesis
    by (auto simp: scanTicket_def Let_def uniquePairs_save split: option.splits sum.splits)
next
  case (ManualCheckin en org eid rid)
  with u show ?thesis
    by (auto simp: manualCheckin_def Let_def uniquePairs_save split: option.splits sum.splits)
qed

lemma uniquePairs_run: "uniquePairs d \<Longrightarrow> uniquePairs (run qs d)"
  by (induction qs arbitrary: d) (simp_all add: uniquePairs_handle)

lemma second_registerNormal:
  assumes "findByEventUser eid (user_id u) d \<noteq> None"
  shows "\<exists>err. registerNormal en u eid body d = (Inl err, d)
     \<and> (\<forall>ev. events d eid = Some ev \<and> registrationOpen ev \<and> eventType ev = Normal
            \<and> checkEligibility ev u = None \<and> \<not> deadlinePassed (now en) ev
            \<longrightarrow> err = AlreadyRegistered)"
  using assms by (auto simp: registerNormal_def split: option.splits)

lemma second_registerMerch:
  assumes "findByEventUser eid (user_id u) d \<noteq> None"
  shows "\<exists>err. registerMerch en u eid sels d = (Inl err, d)
     \<and> (\<forall>ev. events d eid = Some ev \<and> registrationOpen ev \<and> eventType ev = Merchandise
            \<and> checkEligibility ev u = None \<and> \<not> deadlinePassed (now en) ev
            \<longrightarrow> err = AlreadyRegistered)"
  using assms by (auto simp: registerMerch_def split: option.splits)

text \<open>
  Claim C4, as amended. From a ledger with at most one registration per (event, participant)
  pair, every run of requests ends in such a ledger: the compound unique index refuses the
  only write that could break it. When the participant already has a registration for the
  event, a further call of either registration route fails and returns the database unchanged
  (no counter moves, no registration is written). The error is \<open>AlreadyRegistered\<close> when the
  event exists, registration is open, the route fits the event type, the participant is
  eligible and the deadline has not passed: those checks come first in both routes and report
  their own errors.
\<close>

theorem one_registration_per_pair:
  assumes uniq: "uniquePairs d"
  shows "uniquePairs (run qs d)
       \<and> (findByEventUser eid (user_id u) d \<noteq> None \<longrightarrow>
            (\<exists>err. registerNormal en u eid body d = (Inl err, d)
               \<and> (\<forall>ev. events d eid = Some ev \<and> registrationOpen ev \<and> eventType ev = Normal
                      \<and> checkEligibility ev u = None \<and> \<not> deadlinePassed (now en) ev
                      \<longrightarrow> err = AlreadyRegistered))
          \<and> (\<exists>err. registerMerch en u eid sels d = (Inl err, d)
               \<and> (\<forall>ev. events d eid = Some ev \<and> registrationOpen ev \<and> eventType ev = Merchandise
                      \<and> checkEligibility ev u = None \<and> \<not> deadlinePassed (now en) ev
                      \<longrightarrow> err = AlreadyRegistered)))"
  using uniquePairs_run[OF uniq] second_registerNormal second_registerMerch by blast

text \<open>Alice, who holds a ticket for the talk, registers again before the deadline.\<close>

theorem one_registration_per_pair_witness:
  "uniquePairs db1
   \<and> findByEventUser ''talk'' (user_id alice) db1 = Some ticketA
   \<and> uniquePairs (run [RegisterNormal env1 alice ''talk'' [(''f1'', JString ''IIIT'')]] db1)
   \<and> registerNormal env1 alice ''talk'' [(''f1'', JString ''IIIT'')] db1 = (Inl AlreadyRegistered, db1)"
proof -
  have u: "uniquePairs db1" by (simp add: uniquePairs_def db1_def)
  have f: "findByEventUser ''talk'' (user_id alice) db1 = Some ticketA"
    by (simp add: findByEventUser_def db1_def ticketA_def alice_def)
  have g: "events db1 ''talk'' = Some (talk\<lparr>registrationCount := 1\<rparr>)"
     "registrationOpen (talk\<lparr>registrationCount := 1\<rparr>)"
     "eventType (talk\<lparr>registrationCount := 1\<rparr>) = Normal"
     "checkEligibility (talk\<lparr>registrationCount := 1\<rparr>) alice = None"
     "\<not> deadlinePassed (now env1) (talk\<lparr>registrationCount := 1\<rparr>)"
    by (simp_all add: db1_def talk_def checkEligibility_def deadlinePassed_def env1_def)
  from one_registration_per_pair[OF u, where qs = "[RegisterNormal env1 alice ''talk'' [(''f1'', JString ''IIIT'')]]"
      and eid = "''talk''" and u = alice and en = env1 and body = "[(''f1'', JString ''IIIT'')]"] f g
  show ?thesis using u by auto
qed

text \<open>Claim C4 as stated does not hold: the same second call at time 150, after the deadline
  of 90, fails with \<open>DeadlinePassed\<close>, not with \<open>AlreadyRegistered\<close>.\<close>

theorem second_register_after_deadline_counterexample:
  "findByEventUser ''talk'' (user_id alice) db1 = Some ticketA
   \<and> registerNormal env3 alice ''talk'' [(''f1'', JString ''IIIT'')] db1 = (Inl DeadlinePassed, db1)"
  by (simp add: registerNormal_def findByEventUser_def db1_def ticketA_def alice_def talk_def
      env3_def checkEligibility_def deadlinePassed_def)

section \<open>Capacity bounds\<close>

text \<open>A registration route changes the capacity counters by at most one guarded reservation
  on its event; a rejection by one release; every other request by nothing.\<close>

lemma capacityOf_setItems: "capacityOf (setItems eid f d) = capacityOf d"
  by (rule ext) (simp add: capacityOf_def setItems_def split: option.splits)

lemma capacityOf_restoreFiltered: "capacityOf (restoreFiltered eid ds d) = capacityOf d"
proof (induction ds arbitrary: d)
  case Nil
  then show ?case by (simp add: restoreFiltered_def)
next
  case (Cons p ds)
  from Cons[of "setItems eid (incFiltered (fst p) (snd p) 1) d"] show ?case
    by (simp add: restoreFiltered_def capacityOf_setItems)
qed

lemma capacityOf_restorePositional: "capacityOf (restorePositional eid ds d) = capacityOf d"
proof (induction ds arbitrary: d)
  case Nil
  then show ?case by (simp add: restorePositional_def)
next
  case (Cons p ds)
  from Cons[of "setItems eid (incPositional (fst p) (snd p) 1) d"] show ?case
    by (simp add: restorePositional_def capacityOf_setItems)
qed

lemma capacityOf_releaseSlot_cong:
  "capacityOf d1 = capacityOf d2 \<Longrightarrow> capacityOf (releaseSlot eid d1) = capacityOf (releaseSlot eid d2)"
proof (rule ext)
  fix e
  assume eq: "capacityOf d1 = capacityOf d2"
  then have "capacityOf d1 eid = capacityOf d2 eid" "capacityOf d1 e = capacityOf d2 e" by simp_all
  then show "capacityOf (releaseSlot eid d1) e = capacityOf (releaseSlot eid d2) e"
    by (cases "events d1 eid"; cases "events d2 eid")
       (auto simp: capacityOf_def releaseSlot_def)
qed

lemma capacityOf_decrementStock:
  "decrementStock eid a b d = (ok, d1) \<Longrightarrow> capacityOf d1 = capacityOf d"
  by (auto simp: decrementStock_def capacityOf_setItems split: option.splits if_splits)

text \<open>The selection loop moves no capacity counter, except that a failing branch releases the
  slot of the event.\<close>
lemma capacityOf_selectionLoop:
  "selectionLoop eid sels items processed total0 dec d = (out, d') \<Longrightarrow>
   capacityOf d' = (case out of Inl _ \<Rightarrow> capacityOf (releaseSlot eid d) | Inr _ \<Rightarrow> capacityOf d)"
proof (induction items arbitrary: processed total0 dec d)
  case Nil
  then show ?case by auto
next
  case (Cons it items)
  have pos: "capacityOf (releaseSlot eid (restorePositional eid dec d)) = capacityOf (releaseSlot eid d)"
    by (rule capacityOf_releaseSlot_cong) (rule capacityOf_restorePositional)
  have fil: "capacityOf (releaseSlot eid (restoreMatched eid dec d)) = capacityOf (releaseSlot eid d)"
    unfolding restoreMatched_eq
    by (rule capacityOf_releaseSlot_cong) (rule capacityOf_restoreFiltered)
  show ?case
  proof (cases "truthy (map_of sels (item_id it))")
    case None
    show ?thesis
    proof (cases "item_required it")
      case True
      with None Cons.prems pos show ?thesis by auto
    next
      case False
      with None Cons.prems have "selectionLoop eid sels items processed total0 dec d = (out, d')"
        by simp
      from Cons.IH[OF this] show ?thesis .
    qed
  next
    case (Some sid)
    note sid = this
    show ?thesis
    proof (cases "find (\<lambda>op. opt_id op = sid) (options it)")
      case None
      with sid Cons.prems pos show ?thesis by auto
    next
      case (Some opt)
      note opt = this
      obtain ok d1 where dec: "decrementStock eid (item_id it) (opt_id opt) d = (ok, d1)"
        by (cases "decrementStock eid (item_id it) (opt_id opt) d")
      note c1 = capacityOf_decrementStock[OF dec]
      show ?thesis
      proof (cases ok)
        case False
        with dec opt sid Cons.prems fil show ?thesis by auto
      next
        case True
        from True dec opt sid Cons.prems
        have rec: "selectionLoop eid sels items
            (AList.update (item_id it)
               \<lparr>sel_itemName = itemName it, optionId = opt_id opt,
                optionLabel = opt_label opt, sel_price = price opt\<rparr> processed)
            (total0 + price opt) (dec @ [(item_id it, opt_id opt)]) d1 = (out, d')"
          by simp
        from Cons.IH[OF rec] c1 capacityOf_releaseSlot_cong[OF c1, of eid]
        show ?thesis by (cases out) simp_all
      qed
    qed
  qed
qed

lemma capacityOf_reserve_release:
  "reserveSlot eid l d = (True, d1) \<Longrightarrow> capacityOf (releaseSlot eid d1) = capacityOf d"
  by (simp add: reserve_then_release)

lemma reserveSlot_reserved:
  "events d eid = Some ev \<Longrightarrow> reserveSlot eid (registrationLimit ev) d = (True, d1) \<Longrightarrow>
   reserved d eid d1"
  by (auto simp: reserveSlot_def reserved_def capacityOf_def fun_eq_iff split: if_splits)

lemma reserved_cong: "reserved d eid d1 \<Longrightarrow> capacityOf d2 = capacityOf d1 \<Longrightarrow> reserved d eid d2"
  by (simp add: reserved_def)

lemma capacityOf_create_Inr:
  "Registration_create en r d = (Inr r', d') \<Longrightarrow> capacityOf d' = capacityOf d"
  by (auto simp: capacityOf_def fun_eq_iff dest!: Registration_create_Inr)

lemma registerNormal_capacity:
  assumes res: "registerNormal en u eid body d = (out, d')"
  shows "capacityOf d' = capacityOf d \<or> reserved d eid d'"
proof (cases out)
  case (Inl err)
  show ?thesis
  proof (cases "\<exists>lbl. err = RequiredFieldMissing lbl")
    case False
    with registerNormal_failure_unchanged[OF res[unfolded Inl]] show ?thesis by blast
  next
    case True
    then obtain lbl where lbl: "err = RequiredFieldMissing lbl" by blast
    show ?thesis
    proof (cases "events d eid")
      case None
      with res show ?thesis by (simp add: registerNormal_def)
    next
      case (Some ev)
      from res Inl lbl Some have "reserveSlot eid (registrationLimit ev) d = (True, d')"
        by (auto simp: registerNormal_def Let_def
            split: option.splits prod.splits sum.splits if_splits bool.splits
            dest: Registration_create_Inl)
      from reserveSlot_reserved[OF Some this] show ?thesis ..
    qed
  qed
next
  case (Inr r)
  show ?thesis
  proof (cases "events d eid")
    case None
    with res Inr show ?thesis by (simp add: registerNormal_def)
  next
    case (Some ev)
    from res Inr Some obtain d1 where rs: "reserveSlot eid (registrationLimit ev) d = (True, d1)"
      and cr: "Registration_create en r d1 = (Inr r, d') \<or> (\<exists>x. Registration_create en x d1 = (Inr r, d'))"
      by (auto simp: registerNormal_def Let_def
          split: option.splits prod.splits sum.splits if_splits bool.splits)
    from cr have "capacityOf d' = capacityOf d1" by (auto dest: capacityOf_create_Inr)
    from reserved_cong[OF reserveSlot_reserved[OF Some rs] this] show ?thesis ..
  qed
qed

lemma registerMerch_capacity:
  assumes res: "registerMerch en u eid sels d = (out, d')"
  shows "capacityOf d' = capacityOf d \<or> reserved d eid d'"
proof (cases "events d eid")
  case None
  with res show ?thesis by (auto simp: registerMerch_def)
next
  case (Some ev)
  note ev = this
  show ?thesis
  proof (cases "registrationOpen ev \<and> eventType ev = Merchandise \<and> checkEligibility ev u = None
      \<and> \<not> deadlinePassed (now en) ev \<and> findByEventUser eid (user_id u) d = None
      \<and> soldOutRequired (merchandiseItems ev) = None")
    case False
    with res ev have "d' = d"
      by (auto simp: registerMerch_def split: option.splits if_splits)
    then show ?thesis by simp
  next
    case True
    note checks = this
    obtain ok1 d1 where rs: "reserveSlot eid (registrationLimit ev) d = (ok1, d1)"
      by (cases "reserveSlot eid (registrationLimit ev) d")
    show ?thesis
    proof (cases ok1)
      case False
      with res ev checks rs have "d' = d" by (simp add: registerMerch_def)
      then show ?thesis by simp
    next
      case True
      note ok1 = this
      from rs ok1 have rs': "reserveSlot eid (registrationLimit ev) d = (True, d1)" by simp
      note back1 = capacityOf_reserve_release[OF rs']
      obtain lo d2 where lp: "selectionLoop eid sels (merchandiseItems ev) [] 0 [] d1 = (lo, d2)"
        by (cases "selectionLoop eid sels (merchandiseItems ev) [] 0 [] d1")
      note c2 = capacityOf_selectionLoop[OF lp]
      show ?thesis
      proof (cases lo)
        case (Inl e)
        with res ev checks rs ok1 lp have "d' = d2" by (simp add: registerMerch_def)
        with c2 Inl back1 show ?thesis by simp
      next
        case (Inr triple)
        obtain processed merchTotal dec where t: "triple = (processed, merchTotal, dec)"
          by (cases triple)
        from c2 Inr have c2': "capacityOf d2 = capacityOf d1" by simp
        show ?thesis
        proof (cases out)
          case (Inl err)
          from res Inl ev checks rs ok1 lp Inr t
          have "d' = restoreFiltered eid dec (releaseSlot eid d2)"
            by (auto simp: registerMerch_def Let_def split: prod.splits sum.splits if_splits)
          then have "capacityOf d' = capacityOf (releaseSlot eid d2)"
            by (simp add: capacityOf_restoreFiltered)
          also have "\<dots> = capacityOf (releaseSlot eid d1)"
            by (rule capacityOf_releaseSlot_cong[OF c2'])
          finally show ?thesis using back1 by simp
        next
          case (Inr r)
          from res Inr ev checks rs ok1 lp \<open>lo = Inr triple\<close> t
          have "\<exists>x. Registration_create en x d2 = (Inr r, d')"
            by (auto simp: registerMerch_def Let_def split: prod.splits sum.splits if_splits)
          then have "capacityOf d' = capacityOf d2" by (auto dest: capacityOf_create_Inr)
          with c2' have "capacityOf d' = capacityOf d1" by simp
          from reserved_cong[OF reserveSlot_reserved[OF ev rs'] this] show ?thesis ..
        qed
      qed
    qed
  qed
qed

lemma capacityOf_saveRegistration: "capacityOf (saveRegistration rid f d) = capacityOf d"
  by (simp add: capacityOf_def fun_eq_iff saveRegistration_def)

lemma capacityOf_releaseSlot:
  "capacityOf (releaseSlot eid d) e =
     (if e = eid then map_option (\<lambda>p. (fst p - 1, snd p)) (capacityOf d e) else capacityOf d e)"
  by (auto simp: capacityOf_def releaseSlot_def split: option.splits)

lemma disposePayment_capacity:
  "capacityOf (snd (disposePayment org eid rid act d)) = capacityOf d
   \<or> (act = Reject \<and> capacityOf (snd (disposePayment org eid rid act d)) = capacityOf (releaseSlot eid d))"
proof (cases "findOrganizerAndEvent org eid d")
  case (Inl err)
  then show ?thesis by (simp add: disposePayment_def)
next
  case (Inr ev)
  note own = this
  show ?thesis
  proof (cases "findById rid d")
    case None
    with own show ?thesis by (simp add: disposePayment_def)
  next
    case (Some r)
    note found = this
    show ?thesis
    proof (cases act)
      case Approve
      with own found show ?thesis
        by (simp add: disposePayment_def Let_def capacityOf_saveRegistration)
    next
      case OtherAction
      with own found show ?thesis by (simp add: disposePayment_def)
    next
      case Reject
      show ?thesis
      proof (cases "paymentStatus r = Rejected")
        case True
        with own found Reject show ?thesis by (simp add: disposePayment_def)
      next
        case False
        let ?d1 = "saveRegistration (reg_id r) (\<lambda>x. x\<lparr>paymentStatus := Rejected, qrCode := []\<rparr>) d"
        have "capacityOf (snd (disposePayment org eid rid Reject d)) = capacityOf (releaseSlot eid ?d1)"
          using own found False
          by (auto simp: disposePayment_def Let_def capacityOf_def fun_eq_iff split: option.splits)
        also have "\<dots> = capacityOf (releaseSlot eid d)"
          by (rule capacityOf_releaseSlot_cong) (rule capacityOf_saveRegistration)
        finally show ?thesis using Reject by simp
      qed
    qed
  qed
qed

lemma handle_capacity:
  "capacityOf (snd (handle q d)) = capacityOf d
   \<or> (\<exists>eid. reserved d eid (snd (handle q d)))
   \<or> (isRejection q \<and> (\<exists>eid. capacityOf (snd (handle q d)) = capacityOf (releaseSlot eid d)))"
proof (cases q)
  case (RegisterNormal en u eid body)
  obtain out d' where r: "registerNormal en u eid body d = (out, d')"
    by (cases "registerNormal en u eid body d")
  from registerNormal_capacity[OF r] r RegisterNormal show ?thesis by auto
next
  case (RegisterMerch en u eid sels)
  obtain out d' where r: "registerMerch en u eid sels d = (out, d')"
    by (cases "registerMerch en u eid sels d")
  from registerMerch_capacity[OF r] r RegisterMerch show ?thesis by auto
next
  case (UploadProof u eid pp)
  then show ?thesis
    by (auto simp: uploadPaymentProof_def Let_def capacityOf_saveRegistration split: option.splits)
next
  case (Dispose org eid rid act)
  with disposePayment_capacity[of org eid rid act d] show ?thesis by auto
next
  case (Scan en org eid t)
  then show ?thesis
    by (auto simp: scanTicket_def Let_def capacityOf_saveRegistration split: option.splits sum.splits)
next
  case (ManualCheckin en org eid rid)
  then show ?thesis
    by (auto simp: manualCheckin_def Let_def capacityOf_saveRegistration split: option.splits sum.splits)
qed

text \<open>No request takes a counter above its limit.\<close>
lemma withinLimit_handle:
  assumes w: "withinLimit d"
  shows "withinLimit (snd (handle q d))"
proof -
  from handle_capacity[of q d] show ?thesis
  proof (elim disjE exE conjE)
    assume "capacityOf (snd (handle q d)) = capacityOf d"
    with w show ?thesis by (simp add: withinLimit_def)
  next
    fix eid
    assume "reserved d eid (snd (handle q d))"
    with w show ?thesis by (auto simp: withinLimit_def reserved_def split: if_splits)
  next
    fix eid
    assume "capacityOf (snd (handle q d)) = capacityOf (releaseSlot eid d)"
    with w show ?thesis
      by (auto simp: withinLimit_def capacityOf_releaseSlot split: if_splits) force
  qed
qed

text \<open>No request other than a rejection takes a counter below zero.\<close>
lemma countsNonNegative_handle:
  assumes n: "countsNonNegative d" and q: "\<not> isRejection q"
  shows "countsNonNegative (snd (handle q d))"
proof -
  from handle_capacity[of q d] q show ?thesis
  proof (elim disjE exE conjE)
    assume "capacityOf (snd (handle q d)) = capacityOf d"
    with n show ?thesis by (simp add: countsNonNegative_def)
  next
    fix eid
    assume "reserved d eid (snd (handle q d))"
    then obtain ev where ev: "events d eid = Some ev"
      and cap: "capacityOf (snd (handle q d)) =
          (capacityOf d)(eid \<mapsto> (registrationCount ev + 1, registrationLimit ev))"
      by (auto simp: reserved_def)
    from ev have "capacityOf d eid = Some (registrationCount ev, registrationLimit ev)"
      by (simp add: capacityOf_def)
    with n have "0 \<le> registrationCount ev" unfolding countsNonNegative_def by blast
    with n cap show ?thesis unfolding countsNonNegative_def by (auto split: if_splits)
  qed simp
qed

lemma withinLimit_run: "withinLimit d \<Longrightarrow> withinLimit (run qs d)"
  by (induction qs arbitrary: d) (simp_all add: withinLimit_handle)

text \<open>With every earlier check passed, a full event answers \<open>EventFull\<close> and nothing changes.\<close>
lemma register_full:
  assumes ev: "events d eid = Some ev"
      and checks: "registrationOpen ev" "checkEligibility ev u = None"
        "\<not> deadlinePassed (now en) ev" "findByEventUser eid (user_id u) d = None"
      and full: "\<not> registrationCount ev < registrationLimit ev"
  shows "(eventType ev = Normal \<longrightarrow> registerNormal en u eid body d = (Inl EventFull, d))
       \<and> (eventType ev = Merchandise \<and> soldOutRequired (merchandiseItems ev) = None \<longrightarrow>
            registerMerch en u eid sels d = (Inl EventFull, d))"
  using assms by (simp add: registerNormal_def registerMerch_def reserveSlot_def)

section \<open>Stock conservation of an order and of its first rejection\<close>

text \<open>What the routes do keep of the conservation law: a successful order and the rejection
  of a registration that is not rejected each leave stock plus held claims of every variant
  as it was.\<close>

lemma find_incOptions:
  "map_option stock (find (\<lambda>op. opt_id op = oi') (incOptions oi k ops)) =
   map_option (\<lambda>s. if oi' = oi then s + k else s)
     (map_option stock (find (\<lambda>op. opt_id op = oi') ops))"
  by (induction ops) (auto simp: incOptions_def option.map_ident)

lemma stockIn_incFiltered:
  "stockIn (incFiltered ii oi k items) ii' oi' =
   map_option (\<lambda>s. if ii' = ii \<and> oi' = oi then s + k else s) (stockIn items ii' oi')"
proof (induction items)
  case Nil
  then show ?case by (simp add: stockIn_def incFiltered_def)
next
  case (Cons it items)
  then have IH: "stockIn (incFiltered ii oi k items) ii' oi' =
      map_option (\<lambda>s. if ii' = ii \<and> oi' = oi then s + k else s) (stockIn items ii' oi')" .
  have step: "incFiltered ii oi k (it # items) =
      (if item_id it = ii then it\<lparr>options := incOptions oi k (options it)\<rparr> else it)
        # incFiltered ii oi k items"
    by (simp add: incFiltered_def)
  show ?case
  proof (cases "item_id it = ii'")
    case False
    with IH show ?thesis unfolding step by (auto simp: stockIn_def)
  next
    case True
    show ?thesis
    proof (cases "ii' = ii")
      case True
      with \<open>item_id it = ii'\<close> show ?thesis
        unfolding step by (simp add: stockIn_def find_incOptions)
    next
      case False
      with \<open>item_id it = ii'\<close> show ?thesis
        unfolding step by (simp add: stockIn_def option.map_ident)
    qed
  qed
qed

lemma stockOf_setItems_incFiltered:
  "stockOf (setItems eid (incFiltered ii oi k) d) e ii' oi' =
   map_option (\<lambda>s. if e = eid \<and> ii' = ii \<and> oi' = oi then s + k else s) (stockOf d e ii' oi')"
  by (cases "events d eid"; cases "e = eid")
     (auto simp: stockOf_def setItems_def stockIn_incFiltered option.map_ident)

lemma stockOf_registrations_only:
  "events d' = events d \<Longrightarrow> stockOf d' = stockOf d"
  by (simp add: stockOf_def fun_eq_iff)

lemma stockOf_reserveSlot:
  "reserveSlot eid l d = (ok, d1) \<Longrightarrow> stockOf d1 = stockOf d"
  by (auto simp: reserveSlot_def stockOf_def fun_eq_iff split: option.splits if_splits)

text \<open>A successful selection loop takes one unit for every entry it adds to
  \<^verbatim>\<open>decrementedOptions\<close>, and records exactly those entries.\<close>
lemma selectionLoop_takes:
  "selectionLoop eid sels items processed total0 dec d = (Inr (processed', total', dec'), d') \<Longrightarrow>
   distinct (map item_id items) \<Longrightarrow>
   \<forall>it \<in> set items. item_id it \<notin> fst ` set processed \<Longrightarrow>
   \<exists>new. dec' = dec @ new
       \<and> map (\<lambda>p. (fst p, optionId (snd p))) processed' =
           map (\<lambda>p. (fst p, optionId (snd p))) processed @ new
       \<and> (\<forall>e a b. stockOf d' e a b =
             map_option (\<lambda>s. s - (if e = eid then int (count_list new (a, b)) else 0)) (stockOf d e a b))"
proof (induction items arbitrary: processed total0 dec d)
  case Nil
  then show ?case by (auto simp: option.map_ident)
next
  case (Cons it items)
  show ?case
  proof (cases "truthy (map_of sels (item_id it))")
    case None
    with Cons.prems have "selectionLoop eid sels items processed total0 dec d
        = (Inr (processed', total', dec'), d')"
      by (auto split: if_splits)
    from Cons.IH[OF this] Cons.prems show ?thesis by simp
  next
    case (Some sid)
    note sid = this
    show ?thesis
    proof (cases "find (\<lambda>op. opt_id op = sid) (options it)")
      case None
      with sid Cons.prems show ?thesis by simp
    next
      case (Some opt)
      note opt = this
      obtain ok d1 where dec: "decrementStock eid (item_id it) (opt_id opt) d = (ok, d1)"
        by (cases "decrementStock eid (item_id it) (opt_id opt) d")
      show ?thesis
      proof (cases ok)
        case False
        with dec opt sid Cons.prems show ?thesis by simp
      next
        case True
        let ?v = "\<lparr>sel_itemName = itemName it, optionId = opt_id opt,
                optionLabel = opt_label opt, sel_price = price opt\<rparr>"
        let ?p = "(item_id it, opt_id opt)"
        from True dec have d1: "d1 = setItems eid (incFiltered (item_id it) (opt_id opt) (- 1)) d"
          by (simp add: decrementStock_True)
        from True dec opt sid Cons.prems(1)
        have rec: "selectionLoop eid sels items (AList.update (item_id it) ?v processed)
            (total0 + price opt) (dec @ [?p]) d1 = (Inr (processed', total', dec'), d')"
          by simp
        from Cons.prems(3) have fresh: "item_id it \<notin> fst ` set processed" by simp
        then have upd: "AList.update (item_id it) ?v processed = processed @ [(item_id it, ?v)]"
          by (rule update_absent)
        have dist: "distinct (map item_id items)" using Cons.prems(2) by simp
        have keys: "\<forall>x \<in> set items. item_id x \<notin> fst ` set (AList.update (item_id it) ?v processed)"
          using Cons.prems(2,3) by (auto simp: upd image_iff)
        from Cons.IH[OF rec dist keys] obtain new where
          n1: "dec' = (dec @ [?p]) @ new"
          and n2: "map (\<lambda>p. (fst p, optionId (snd p))) processed' =
             map (\<lambda>p. (fst p, optionId (snd p))) (AList.update (item_id it) ?v processed) @ new"
          and n3: "\<forall>e a b. stockOf d' e a b =
             map_option (\<lambda>s. s - (if e = eid then int (count_list new (a, b)) else 0)) (stockOf d1 e a b)"
          by blast
        have s: "stockOf d' e a b =
            map_option (\<lambda>s. s - (if e = eid then int (count_list (?p # new) (a, b)) else 0))
              (stockOf d e a b)" for e a b
          unfolding n3[rule_format] d1 stockOf_setItems_incFiltered
          by (cases "stockOf d e a b") auto
        show ?thesis
          apply (rule exI[of _ "?p # new"])
          using n1 n2 s by (simp add: upd)
      qed
    qed
  qed
qed

lemma selectionLoop_keys:
  "selectionLoop eid sels items processed total0 dec d = (Inr (processed', total', dec'), d') \<Longrightarrow>
   distinct (map fst processed) \<Longrightarrow> distinct (map fst processed')"
proof (induction items arbitrary: processed total0 dec d)
  case Nil
  then show ?case by auto
next
  case (Cons it items)
  show ?case
  proof (cases "truthy (map_of sels (item_id it))")
    case None
    with Cons.prems have "selectionLoop eid sels items processed total0 dec d
        = (Inr (processed', total', dec'), d')"
      by (auto split: if_splits)
    from Cons.IH[OF this] Cons.prems show ?thesis by simp
  next
    case (Some sid)
    note sid = this
    show ?thesis
    proof (cases "find (\<lambda>op. opt_id op = sid) (options it)")
      case None
      with sid Cons.prems show ?thesis by simp
    next
      case (Some opt)
      note opt = this
      obtain ok d1 where dec: "decrementStock eid (item_id it) (opt_id opt) d = (ok, d1)"
        by (cases "decrementStock eid (item_id it) (opt_id opt) d")
      show ?thesis
      proof (cases ok)
        case False
        with dec opt sid Cons.prems show ?thesis by simp
      next
        case True
        let ?v = "\<lparr>sel_itemName = itemName it, optionId = opt_id opt,
                optionLabel = opt_label opt, sel_price = price opt\<rparr>"
        from True dec opt sid Cons.prems(1)
        have rec: "selectionLoop eid sels items (AList.update (item_id it) ?v processed)
            (total0 + price opt) (dec @ [(item_id it, opt_id opt)]) d1
              = (Inr (processed', total', dec'), d')"
          by simp
        from Cons.prems(2) have "distinct (map fst (AList.update (item_id it) ?v processed))"
          by (rule distinct_update)
        from Cons.IH[OF rec this] show ?thesis .
      qed
    qed
  qed
qed

lemma count_list_distinct_fst:
  "distinct (map fst xs) \<Longrightarrow> count_list xs (a, b) = (if (a, b) \<in> set xs then 1 else 0)"
proof (induction xs)
  case Nil
  then show ?case by simp
next
  case (Cons x xs)
  then show ?case by (cases x) (auto simp: image_iff)
qed

lemma recorded_pairs:
  assumes "distinct (map fst sels)"
  shows "(case map_of sels a of None \<Rightarrow> False | Some s \<Rightarrow> optionId s = b) =
         ((a, b) \<in> set (map (\<lambda>p. (fst p, optionId (snd p))) sels))"
proof
  assume "case map_of sels a of None \<Rightarrow> False | Some s \<Rightarrow> optionId s = b"
  then obtain s where s: "map_of sels a = Some s" "optionId s = b"
    by (auto split: option.splits)
  from map_of_SomeD[OF s(1)] s(2) show "(a, b) \<in> set (map (\<lambda>p. (fst p, optionId (snd p))) sels)"
    by force
next
  assume "(a, b) \<in> set (map (\<lambda>p. (fst p, optionId (snd p))) sels)"
  then obtain p where p: "p \<in> set sels" "fst p = a" "optionId (snd p) = b" by auto
  then have "(a, snd p) \<in> set sels" by (cases p) auto
  from map_of_is_SomeI[OF assms this] p(3)
  show "case map_of sels a of None \<Rightarrow> False | Some s \<Rightarrow> optionId s = b" by simp
qed

text \<open>A successful order takes exactly one unit of each variant it records.\<close>
lemma registerMerch_takes_selected_units:
  assumes succ: "registerMerch en u eid sels d = (Inr r, d')"
      and ev: "events d eid = Some ev"
      and items: "distinctItems (merchandiseItems ev)"
  shows "stockOf d' e a b =
         map_option (\<lambda>s. if e = eid \<and> selected r a b then s - 1 else s) (stockOf d e a b)"
proof -
  from registerMerch_created[OF succ ev] obtain d1 d2 dec where
    rs: "reserveSlot eid (registrationLimit ev) d = (True, d1)"
    and lp: "selectionLoop eid sels (merchandiseItems ev) [] 0 [] d1 =
           (Inr (merchandiseSelections r, amountPaid r - registrationFee ev, dec), d2)"
    and d': "d' = d2\<lparr>registrations := registrations d2 @ [r]\<rparr>"
    by blast
  from items have dist: "distinct (map item_id (merchandiseItems ev))" by (simp add: distinctItems_def)
  from selectionLoop_takes[OF lp dist] obtain new where
    m: "map (\<lambda>p. (fst p, optionId (snd p))) (merchandiseSelections r) = new"
    and st: "\<forall>e a b. stockOf d2 e a b =
             map_option (\<lambda>s. s - (if e = eid then int (count_list new (a, b)) else 0)) (stockOf d1 e a b)"
    by auto
  have keysd: "distinct (map fst (merchandiseSelections r))"
    using selectionLoop_keys[OF lp] by simp
  from m have "map fst new = map fst (merchandiseSelections r)" by (auto simp: o_def)
  with keysd have dn: "distinct (map fst new)" by simp
  have sel: "selected r a b = ((a, b) \<in> set new)"
    using recorded_pairs[OF keysd, where a = a and b = b] m by (simp add: selected_def)
  have "stockOf d' = stockOf d2" using d' by (simp add: stockOf_def fun_eq_iff)
  moreover have "stockOf d1 = stockOf d" by (rule stockOf_reserveSlot[OF rs])
  ultimately show ?thesis
    using st count_list_distinct_fst[OF dn, of a b] sel
    by (cases "stockOf d e a b") auto
qed


text \<open>A successful order conserves stock plus held claims of every variant.\<close>
lemma order_conserves:
  assumes succ: "registerMerch en u eid sels d = (Inr r, d')"
      and ev: "events d eid = Some ev"
      and items: "distinctItems (merchandiseItems ev)"
      and s: "stockOf d e a b = Some s"
  shows "\<exists>s'. stockOf d' e a b = Some s' \<and> s' + heldClaims d' e a b = s + heldClaims d e a b"
proof -
  from registerMerch_created[OF succ ev] obtain d1 d2 dec where
    rs: "reserveSlot eid (registrationLimit ev) d = (True, d1)"
    and lp: "selectionLoop eid sels (merchandiseItems ev) [] 0 [] d1 =
           (Inr (merchandiseSelections r, amountPaid r - registrationFee ev, dec), d2)"
    and pst: "paymentStatus r = (if 0 < amountPaid r then Pending else NotRequired)"
    and eid: "eventId r = eid"
    and d': "d' = d2\<lparr>registrations := registrations d2 @ [r]\<rparr>"
    by blast
  from pst have st: "paymentStatus r \<noteq> Rejected" by (simp split: if_splits)
  from registrations_selectionLoop_any[OF lp] registrations_reserveSlot[OF rs] d'
  have app: "registrations d' = registrations d @ [r]" by simp
  have held: "heldClaims d' e a b = heldClaims d e a b + (if e = eid \<and> selected r a b then 1 else 0)"
    using app st eid by (auto simp: heldClaims_def selects_def)
  from registerMerch_takes_selected_units[OF succ ev items, of e a b] s held
  show ?thesis by auto
qed

lemma held_updateFirst:
  "find (\<lambda>x. reg_id x = rid) rs = Some r \<Longrightarrow>
   int (length (filter P (updateFirst rid f rs))) =
   int (length (filter P rs)) - (if P r then 1 else 0) + (if P (f r) then 1 else 0)"
  by (induction rs) (auto split: if_splits)

text \<open>Rejecting a registration that is not rejected conserves them too, on its own
  merchandise event.\<close>
lemma first_rejection_conserves:
  assumes own: "findOrganizerAndEvent organizer eid d = Inr ev"
      and found: "findById rid d = Some r"
      and keys: "distinct (map fst (merchandiseSelections r))"
      and st: "paymentStatus r \<noteq> Rejected"
      and mine: "eventId r = eid" "eventType ev = Merchandise"
      and b: "b \<noteq> []"
      and s: "stockOf d eid a b = Some s"
  shows "\<exists>s'. stockOf (snd (disposePayment organizer eid rid Reject d)) eid a b = Some s'
           \<and> s' + heldClaims (snd (disposePayment organizer eid rid Reject d)) eid a b
               = s + heldClaims d eid a b"
proof -
  let ?f = "\<lambda>x. x\<lparr>paymentStatus := Rejected, qrCode := []\<rparr>"
  let ?d' = "snd (disposePayment organizer eid rid Reject d)"
  from own have ev: "events d eid = Some ev"
    by (auto simp: findOrganizerAndEvent_def split: option.splits if_splits)
  from found have rid: "reg_id r = rid"
    and f: "find (\<lambda>x. reg_id x = rid) (registrations d) = Some r"
    by (auto simp: findById_def find_Some_iff)
  note res = reject_state[OF own found st]
  have regs: "registrations ?d' = updateFirst rid ?f (registrations d)"
    by (simp add: res)
  have items: "stockOf ?d' eid a b =
      stockIn (restoreSelections (merchandiseSelections r) (merchandiseItems ev)) a b"
    using mine by (simp add: res stockOf_def)
  have held: "heldClaims ?d' eid a b = heldClaims d eid a b - (if selected r a b then 1 else 0)"
    unfolding heldClaims_def regs held_updateFirst[OF f]
    using st mine by (simp add: selects_def selected_def)
  from s ev have "stockIn (merchandiseItems ev) a b = Some s" by (simp add: stockOf_def)
  with stockIn_restoreSelections[OF keys, of "merchandiseItems ev" a b] b
  have "stockIn (restoreSelections (merchandiseSelections r) (merchandiseItems ev)) a b =
      Some (if selected r a b then s + 1 else s)"
    by (simp add: selected_def)
  with items held show ?thesis by simp
qed

section \<open>Rejection after a re-upload\<close>

text \<open>
  Claim C3, evaluated on the code. Alice registers for the paid talk (one place), the
  organizer rejects the payment, Alice uploads a new proof, and the organizer rejects again.
  After the third request the talk has \<^verbatim>\<open>registrationCount\<close> 0 and Alice's registration is
  pending again; the second rejection then decrements the counter once more, to \<open>-1\<close>: the
  invariant \<open>0 \<le> registrationCount\<close> is not preserved by \<open>Reject\<close>.
\<close>

theorem second_rejection_drives_count_negative:
  "countOf db0 ''talk'' = Some 0
   \<and> run [RegisterNormal env1 alice ''talk'' [(''f1'', JString ''IIIT'')],
           Dispose (Some ''org1'') ''talk'' ''r1'' Reject,
           UploadProof alice ''talk'' (Some ''proof2.png'')] db0 =
       db0\<lparr>registrations := [paidTicket\<lparr>paymentProof := ''proof2.png''\<rparr>]\<rparr>
   \<and> countOf (run [RegisterNormal env1 alice ''talk'' [(''f1'', JString ''IIIT'')],
                    Dispose (Some ''org1'') ''talk'' ''r1'' Reject,
                    UploadProof alice ''talk'' (Some ''proof2.png''),
                    Dispose (Some ''org1'') ''talk'' ''r1'' Reject] db0) ''talk'' = Some (- 1)"
proof -
  let ?t1 = "talk\<lparr>registrationCount := 1\<rparr>"
  have s1: "snd (registerNormal env1 alice ''talk'' [(''f1'', JString ''IIIT'')] db0) =
      db0\<lparr>events := (events db0)(''talk'' \<mapsto> ?t1), registrations := [paidTicket]\<rparr>"
    by (simp add: registerNormal_def db0_def talk_def env1_def alice_def checkEligibility_def
        deadlinePassed_def findByEventUser_def reserveSlot_def isMissing_def
        Registration_create_def Let_def paidTicket_def ticketA_def)
  have s2: "snd (disposePayment (Some ''org1'') ''talk'' ''r1'' Reject
        (db0\<lparr>events := (events db0)(''talk'' \<mapsto> ?t1), registrations := [paidTicket]\<rparr>)) =
      db0\<lparr>registrations := [paidTicket\<lparr>paymentStatus := Rejected\<rparr>]\<rparr>"
    by (simp add: disposePayment_def findOrganizerAndEvent_def findById_def db0_def talk_def
        paidTicket_def ticketA_def saveRegistration_def releaseSlot_def Let_def fun_upd_twist)
  have s3: "snd (uploadPaymentProof alice ''talk'' (Some ''proof2.png'')
        (db0\<lparr>registrations := [paidTicket\<lparr>paymentStatus := Rejected\<rparr>]\<rparr>)) =
      db0\<lparr>registrations := [paidTicket\<lparr>paymentProof := ''proof2.png''\<rparr>]\<rparr>"
    by (simp add: uploadPaymentProof_def truthy_def findByEventUser_def db0_def alice_def
        paidTicket_def ticketA_def saveRegistration_def Let_def)
  have s4: "snd (disposePayment (Some ''org1'') ''talk'' ''r1'' Reject
        (db0\<lparr>registrations := [paidTicket\<lparr>paymentProof := ''proof2.png''\<rparr>]\<rparr>)) =
      db0\<lparr>events := (events db0)(''talk'' \<mapsto> talk\<lparr>registrationCount := - 1\<rparr>),
          registrations := [paidTicket\<lparr>paymentProof := ''proof2.png'', paymentStatus := Rejected\<rparr>]\<rparr>"
    by (simp add: disposePayment_def findOrganizerAndEvent_def findById_def db0_def talk_def
        paidTicket_def ticketA_def saveRegistration_def releaseSlot_def Let_def fun_upd_twist)
  have c0: "countOf db0 ''talk'' = Some 0" by (simp add: countOf_def db0_def talk_def)
  show ?thesis
    by (simp add: s1 s2 s3 s4 c0) (simp add: countOf_def db0_def)
qed

text \<open>
  Claim C2, evaluated on the code. The sale has one shirt of size M. Bob orders it, the
  organizer rejects the payment, Bob uploads a new proof, and the organizer rejects again.
  After the re-upload the shirt is back in stock while Bob's pending registration still holds
  it (stock 1 plus 1 claim, with initial stock 1); after the second rejection the stock is 2.
  Whether a claim is counted for every registration that records the variant or only for
  those not rejected, stock plus claims is not the initial stock.
\<close>

theorem second_rejection_restocks_twice:
  "stockOf db0 ''sale'' ''i1'' ''m'' = Some 1
   \<and> heldClaims db0 ''sale'' ''i1'' ''m'' = 0
   \<and> stockOf (run [RegisterMerch env2 bob ''sale'' [(''i1'', ''m'')],
                    Dispose (Some ''org1'') ''sale'' ''r2'' Reject,
                    UploadProof bob ''sale'' (Some ''proof2.png'')] db0) ''sale'' ''i1'' ''m'' = Some 1
   \<and> heldClaims (run [RegisterMerch env2 bob ''sale'' [(''i1'', ''m'')],
                    Dispose (Some ''org1'') ''sale'' ''r2'' Reject,
                    UploadProof bob ''sale'' (Some ''proof2.png'')] db0) ''sale'' ''i1'' ''m'' = 1
   \<and> stockOf (run [RegisterMerch env2 bob ''sale'' [(''i1'', ''m'')],
                    Dispose (Some ''org1'') ''sale'' ''r2'' Reject,
                    UploadProof bob ''sale'' (Some ''proof2.png''),
                    Dispose (Some ''org1'') ''sale'' ''r2'' Reject] db0) ''sale'' ''i1'' ''m'' = Some 2
   \<and> heldClaims (run [RegisterMerch env2 bob ''sale'' [(''i1'', ''m'')],
                    Dispose (Some ''org1'') ''sale'' ''r2'' Reject,
                    UploadProof bob ''sale'' (Some ''proof2.png''),
                    Dispose (Some ''org1'') ''sale'' ''r2'' Reject] db0) ''sale'' ''i1'' ''m'' = 0
   \<and> recordedClaims (run [RegisterMerch env2 bob ''sale'' [(''i1'', ''m'')],
                    Dispose (Some ''org1'') ''sale'' ''r2'' Reject,
                    UploadProof bob ''sale'' (Some ''proof2.png''),
                    Dispose (Some ''org1'') ''sale'' ''r2'' Reject] db0) ''sale'' ''i1'' ''m'' = 1"
proof -
  let ?b = "orderB\<lparr>ticketId := ''FEL-0a1b2c3d''\<rparr>"
  let ?twice = "sale\<lparr>registrationCount := - 1,
     merchandiseItems := [shirt\<lparr>options := [\<lparr>opt_id = ''m'', opt_label = ''M'', price = 300, stock = 2\<rparr>]\<rparr>]\<rparr>"
  have s1: "snd (registerMerch env2 bob ''sale'' [(''i1'', ''m'')] db0) =
      db0\<lparr>events := (events db0)(''sale'' \<mapsto> soldOut), registrations := [?b]\<rparr>"
    by (simp add: registerMerch_def db0_def sale_def shirt_def soldOut_def env2_def bob_def
        checkEligibility_def deadlinePassed_def findByEventUser_def orderB_def
        reserveSlot_def truthy_def decrementStock_def setItems_def incFiltered_def incOptions_def
        Registration_create_def Let_def)
  have s2: "snd (disposePayment (Some ''org1'') ''sale'' ''r2'' Reject
        (db0\<lparr>events := (events db0)(''sale'' \<mapsto> soldOut), registrations := [?b]\<rparr>)) =
      db0\<lparr>registrations := [?b\<lparr>paymentStatus := Rejected\<rparr>]\<rparr>"
    by (simp add: disposePayment_def findOrganizerAndEvent_def findById_def db0_def sale_def
        shirt_def soldOut_def orderB_def saveRegistration_def releaseSlot_def Let_def
        restoreSelections_def fun_upd_twist)
  have s3: "snd (uploadPaymentProof bob ''sale'' (Some ''proof2.png'')
        (db0\<lparr>registrations := [?b\<lparr>paymentStatus := Rejected\<rparr>]\<rparr>)) =
      db0\<lparr>registrations := [?b\<lparr>paymentProof := ''proof2.png''\<rparr>]\<rparr>"
    by (simp add: uploadPaymentProof_def truthy_def findByEventUser_def db0_def bob_def
        orderB_def saveRegistration_def Let_def)
  have s4: "snd (disposePayment (Some ''org1'') ''sale'' ''r2'' Reject
        (db0\<lparr>registrations := [?b\<lparr>paymentProof := ''proof2.png''\<rparr>]\<rparr>)) =
      db0\<lparr>events := (events db0)(''sale'' \<mapsto> ?twice),
          registrations := [?b\<lparr>paymentProof := ''proof2.png'', paymentStatus := Rejected\<rparr>]\<rparr>"
    by (simp add: disposePayment_def findOrganizerAndEvent_def findById_def db0_def sale_def
        shirt_def orderB_def saveRegistration_def releaseSlot_def Let_def
        restoreSelections_def fun_upd_twist)
  have a: "stockOf db0 ''sale'' ''i1'' ''m'' = Some 1" "heldClaims db0 ''sale'' ''i1'' ''m'' = 0"
    by (simp_all add: stockOf_def stockIn_def heldClaims_def db0_def sale_def shirt_def)
  have b: "stockOf (db0\<lparr>registrations := [?b\<lparr>paymentProof := ''proof2.png''\<rparr>]\<rparr>) ''sale'' ''i1'' ''m'' = Some 1"
     "heldClaims (db0\<lparr>registrations := [?b\<lparr>paymentProof := ''proof2.png''\<rparr>]\<rparr>) ''sale'' ''i1'' ''m'' = 1"
    by (simp_all add: stockOf_def stockIn_def heldClaims_def selects_def selected_def
        db0_def sale_def shirt_def orderB_def)
  let ?end = "db0\<lparr>events := (events db0)(''sale'' \<mapsto> ?twice),
          registrations := [?b\<lparr>paymentProof := ''proof2.png'', paymentStatus := Rejected\<rparr>]\<rparr>"
  have c: "stockOf ?end ''sale'' ''i1'' ''m'' = Some 2"
     "heldClaims ?end ''sale'' ''i1'' ''m'' = 0"
     "recordedClaims ?end ''sale'' ''i1'' ''m'' = 1"
    by (simp_all add: stockOf_def stockIn_def heldClaims_def recordedClaims_def selects_def
        selected_def db0_def sale_def shirt_def orderB_def)
  show ?thesis
    by (simp add: s1 s2 s3 s4 a b c)
qed

end
